theory Spec2Isabelle
  imports Complex_Main "HOL-Library.Word"
begin

section \<open>Shared types of the cache engines\<close>

text \<open>
  The repository holds four cache engines behind one interface: \<open>SimpleCache\<close>,
  \<open>LRUCache\<close> and \<open>LFUCache\<close> of package \<open>memory\<close>, and the configurable
  \<open>MemoryCache\<close> of the root package.  Each public method takes its lock for the
  part of its body that touches the map, so a method call is modelled as one function
  from the state before the call to the state after it.

  Conventions of the embedding:
  \<^item> \<open>time.Time\<close> is an integer count of nanoseconds; the zero \<open>Time\<close> is \<open>0\<close>.
    \<open>time.Duration\<close> is an integer too.  A method reads \<open>time.Now()\<close> once; the
    reading is the argument \<open>now\<close>.
  \<^item> A \<open>[]byte\<close> is a reference into a store of byte arrays (\<open>heap\<close>), so that
    \<open>make\<close> and \<open>copy\<close> are visible and aliasing can be stated.
  \<^item> A Go map is a partial function; \<open>len\<close> is the cardinality of its domain.  The
    order in which \<open>range\<close> yields the keys is chosen by the runtime: it is the
    argument \<open>ks\<close> of every function whose source ranges over the map.
  \<^item> The \<open>int64\<close> counters are unbounded integers (they only ever grow by the number
    of calls made).
\<close>

type_synonym time = int
type_synonym duration = int
type_synonym byte = "8 word"
type_synonym addr = nat

definition IsZero :: "time \<Rightarrow> bool" where
  "IsZero t \<longleftrightarrow> t = 0"

definition After :: "time \<Rightarrow> time \<Rightarrow> bool" where
  "After t u \<longleftrightarrow> u < t"

definition Before :: "time \<Rightarrow> time \<Rightarrow> bool" where
  "Before t u \<longleftrightarrow> t < u"

definition Add :: "time \<Rightarrow> duration \<Rightarrow> time" where
  "Add t d = t + d"

definition Hour :: duration where
  "Hour = 3600 * 1000000000"

subsection \<open>Byte slices\<close>

text \<open>
  The store maps the address of a backing array to its bytes; \<open>brk\<close> is the next
  address \<open>make\<close> hands out.  Address \<open>0\<close> is the \<open>nil\<close> slice, which has no bytes.
\<close>

record heap =
  cells :: "addr \<Rightarrow> byte list option"
  brk :: addr

definition nil :: addr where
  "nil = 0"

definition slice_bytes :: "heap \<Rightarrow> addr \<Rightarrow> byte list" where
  "slice_bytes h a = (case cells h a of None \<Rightarrow> [] | Some bs \<Rightarrow> bs)"

text \<open>\<open>dst := make([]byte, len(src)); copy(dst, src)\<close>\<close>

definition make_copy :: "heap \<Rightarrow> addr \<Rightarrow> addr \<times> heap" where
  "make_copy h src =
     (brk h, h\<lparr>cells := (cells h)(brk h \<mapsto> slice_bytes h src), brk := Suc (brk h)\<rparr>)"

text \<open>What a caller holding the slice \<open>a\<close> can do to it: replace its bytes.\<close>

definition overwrite :: "heap \<Rightarrow> addr \<Rightarrow> byte list \<Rightarrow> heap" where
  "overwrite h a bs = (if a = nil then h else h\<lparr>cells := (cells h)(a \<mapsto> bs)\<rparr>)"

definition heap0 :: heap where
  "heap0 = \<lparr>cells = (\<lambda>a. None), brk = 1\<rparr>"

subsection \<open>Errors and statistics (cache.go)\<close>

datatype error = ErrKeyEmpty | ErrValueTooLarge | ErrCacheClosed | ErrCacheFull

text \<open>\<open>HitRate\<close> is a \<open>float64\<close>; its arithmetic is taken over the reals.\<close>

record Stats =
  Hits :: int
  Misses :: int
  Keys :: int
  Evictions :: int
  HitRate :: real

definition CalculateHitRate :: "Stats \<Rightarrow> Stats" where
  "CalculateHitRate s =
     (let total = Hits s + Misses s
      in if total > 0 then s\<lparr>HitRate := real_of_int (Hits s) / real_of_int total * 100\<rparr>
         else s)"

text \<open>\<open>len(m)\<close> of a map, as an \<open>int\<close>.\<close>

definition len :: "('k \<Rightarrow> 'v option) \<Rightarrow> int" where
  "len m = int (card (dom m))"

text \<open>The runtime may yield the keys of \<open>m\<close> in the order \<open>ks\<close>.\<close>

definition range_order :: "('k \<Rightarrow> 'v option) \<Rightarrow> 'k list \<Rightarrow> bool" where
  "range_order m ks \<longleftrightarrow> distinct ks \<and> set ks = dom m"

section \<open>SimpleCache (memory/simple.go)\<close>

record simpleItem =
  si_value :: addr
  si_expiresAt :: time

definition simpleItem_isExpired :: "simpleItem \<Rightarrow> time \<Rightarrow> bool" where
  "simpleItem_isExpired item now \<longleftrightarrow>
     \<not> IsZero (si_expiresAt item) \<and> After now (si_expiresAt item)"

record SimpleCache =
  sc_items :: "string \<Rightarrow> simpleItem option"
  sc_defaultTTL :: duration
  sc_closed :: bool
  sc_hits :: int
  sc_misses :: int

definition NewSimpleWithTTL :: "duration \<Rightarrow> SimpleCache" where
  "NewSimpleWithTTL defaultTTL =
     \<lparr>sc_items = Map.empty, sc_defaultTTL = defaultTTL, sc_closed = False,
      sc_hits = 0, sc_misses = 0\<rparr>"

definition NewSimple :: SimpleCache where
  "NewSimple = NewSimpleWithTTL 0"

definition SimpleCache_miss :: "SimpleCache \<Rightarrow> heap \<Rightarrow> (addr \<times> bool) \<times> SimpleCache \<times> heap" where
  "SimpleCache_miss c h = ((nil, False), c\<lparr>sc_misses := sc_misses c + 1\<rparr>, h)"

definition SimpleCache_hit ::
  "SimpleCache \<Rightarrow> heap \<Rightarrow> simpleItem \<Rightarrow> (addr \<times> bool) \<times> SimpleCache \<times> heap" where
  "SimpleCache_hit c h item =
     (let (v, h') = make_copy h (si_value item)
      in ((v, True), c\<lparr>sc_hits := sc_hits c + 1\<rparr>, h'))"

text \<open>
  In \<open>Get\<close>, the re-check under the write lock declares its own \<open>item, exists\<close>
  (\<open>if item, exists := c.items[key]; exists && item.isExpired()\<close>), so the
  assignment \<open>exists = false\<close> in its body changes that inner variable.  The outer
  \<open>exists\<close>, tested afterwards, still holds the result of the first lookup, and the
  outer \<open>item\<close> is the one copied.
\<close>

definition SimpleCache_Get ::
  "SimpleCache \<Rightarrow> heap \<Rightarrow> string \<Rightarrow> time \<Rightarrow> (addr \<times> bool) \<times> SimpleCache \<times> heap" where
  "SimpleCache_Get c h key now =
     (if key = [] then SimpleCache_miss c h
      else case sc_items c key of
        None \<Rightarrow> SimpleCache_miss c h
      | Some item \<Rightarrow>
          (let exists = True in
           if simpleItem_isExpired item now then
             (let c1 = (case sc_items c key of
                          None \<Rightarrow> c
                        | Some item2 \<Rightarrow>
                            if simpleItem_isExpired item2 now
                            then c\<lparr>sc_items := (sc_items c)(key := None)\<rparr>
                            else c)
              in if \<not> exists then SimpleCache_miss c1 h else SimpleCache_hit c1 h item)
           else SimpleCache_hit c h item))"

definition SimpleCache_SetWithTTL ::
  "SimpleCache \<Rightarrow> heap \<Rightarrow> string \<Rightarrow> addr \<Rightarrow> duration \<Rightarrow> time
     \<Rightarrow> error option \<times> SimpleCache \<times> heap" where
  "SimpleCache_SetWithTTL c h key val ttl now =
     (if key = [] then (Some ErrKeyEmpty, c, h)
      else if sc_closed c then (Some ErrCacheClosed, c, h)
      else
        (let expiresAt = (if ttl > 0 then Add now ttl
                          else if sc_defaultTTL c > 0 then Add now (sc_defaultTTL c)
                          else 0);
             (valueCopy, h') = make_copy h val
         in (None,
             c\<lparr>sc_items := (sc_items c)(key \<mapsto> \<lparr>si_value = valueCopy, si_expiresAt = expiresAt\<rparr>)\<rparr>,
             h')))"

definition SimpleCache_Set ::
  "SimpleCache \<Rightarrow> heap \<Rightarrow> string \<Rightarrow> addr \<Rightarrow> time \<Rightarrow> error option \<times> SimpleCache \<times> heap" where
  "SimpleCache_Set c h key val now = SimpleCache_SetWithTTL c h key val (sc_defaultTTL c) now"



definition SimpleCache_Stats :: "SimpleCache \<Rightarrow> Stats" where
  "SimpleCache_Stats c =
     CalculateHitRate
       \<lparr>Hits = sc_hits c, Misses = sc_misses c, Keys = len (sc_items c), Evictions = 0,
        HitRate = 0\<rparr>"


text \<open>
  \<open>removeExpired\<close>: the first loop collects the expired keys in the order the map
  yields them, the second deletes them.
\<close>

definition SimpleCache_expiredKeys :: "SimpleCache \<Rightarrow> string list \<Rightarrow> time \<Rightarrow> string list" where
  "SimpleCache_expiredKeys c ks now =
     filter (\<lambda>key. case sc_items c key of
                      None \<Rightarrow> False
                    | Some item \<Rightarrow> simpleItem_isExpired item now) ks"

definition SimpleCache_removeExpired :: "SimpleCache \<Rightarrow> string list \<Rightarrow> time \<Rightarrow> SimpleCache" where
  "SimpleCache_removeExpired c ks now =
     fold (\<lambda>key c'. c'\<lparr>sc_items := (sc_items c')(key := None)\<rparr>)
          (SimpleCache_expiredKeys c ks now) c"

section \<open>LRUCache (memory/lru.go)\<close>

text \<open>
  The cache keeps its nodes in a map and threads them on a doubly linked list between
  the two sentinels \<open>head\<close> and \<open>tail\<close>.  The list is represented by the sequence
  \<open>lc_chain\<close> of the nodes from \<open>head.next\<close> to \<open>tail.prev\<close>, each node named by
  its \<open>key\<close> field: the first element is the most recently used node, the last one
  is \<open>tail.prev\<close>.
\<close>

record lruItem =
  li_key :: string
  li_value :: addr
  li_expiresAt :: time

definition lruItem_isExpired :: "lruItem \<Rightarrow> time \<Rightarrow> bool" where
  "lruItem_isExpired item now \<longleftrightarrow>
     \<not> IsZero (li_expiresAt item) \<and> After now (li_expiresAt item)"

record LRUCache =
  lc_items :: "string \<Rightarrow> lruItem option"
  lc_chain :: "string list"
  lc_maxSize :: int
  lc_defaultTTL :: duration
  lc_closed :: bool
  lc_hits :: int
  lc_misses :: int
  lc_evictions :: int

definition NewLRUWithTTL :: "int \<Rightarrow> duration \<Rightarrow> LRUCache" where
  "NewLRUWithTTL maxSize defaultTTL =
     (let maxSize = (if maxSize \<le> 0 then 1000 else maxSize)
      in \<lparr>lc_items = Map.empty, lc_chain = [], lc_maxSize = maxSize,
          lc_defaultTTL = defaultTTL, lc_closed = False,
          lc_hits = 0, lc_misses = 0, lc_evictions = 0\<rparr>)"

definition NewLRU :: "int \<Rightarrow> LRUCache" where
  "NewLRU maxSize = NewLRUWithTTL maxSize 0"

definition LRUCache_addToHead :: "LRUCache \<Rightarrow> lruItem \<Rightarrow> LRUCache" where
  "LRUCache_addToHead c item = c\<lparr>lc_chain := li_key item # lc_chain c\<rparr>"

definition LRUCache_removeFromList :: "LRUCache \<Rightarrow> lruItem \<Rightarrow> LRUCache" where
  "LRUCache_removeFromList c item = c\<lparr>lc_chain := remove1 (li_key item) (lc_chain c)\<rparr>"

definition LRUCache_moveToHead :: "LRUCache \<Rightarrow> lruItem \<Rightarrow> LRUCache" where
  "LRUCache_moveToHead c item = LRUCache_addToHead (LRUCache_removeFromList c item) item"

definition LRUCache_removeItem :: "LRUCache \<Rightarrow> lruItem \<Rightarrow> LRUCache" where
  "LRUCache_removeItem c item =
     LRUCache_removeFromList (c\<lparr>lc_items := (lc_items c)(li_key item := None)\<rparr>) item"

text \<open>
  \<open>evictTail\<close>: \<open>lastItem := c.tail.prev\<close> is the last node of the chain, and it is
  \<open>c.head\<close> exactly when the chain is empty.  The node is read through the map; a
  chain element with no node behind it does not occur (\<open>LRUCache_wf\<close>).
\<close>

definition LRUCache_evictTail :: "LRUCache \<Rightarrow> LRUCache" where
  "LRUCache_evictTail c =
     (if lc_chain c \<noteq> [] then
        (case lc_items c (last (lc_chain c)) of
           Some lastItem \<Rightarrow>
             (let c1 = LRUCache_removeItem c lastItem
              in c1\<lparr>lc_evictions := lc_evictions c1 + 1\<rparr>)
         | None \<Rightarrow> c)
      else c)"

definition LRUCache_Get ::
  "LRUCache \<Rightarrow> heap \<Rightarrow> string \<Rightarrow> time \<Rightarrow> (addr \<times> bool) \<times> LRUCache \<times> heap" where
  "LRUCache_Get c h key now =
     (if key = [] then ((nil, False), c\<lparr>lc_misses := lc_misses c + 1\<rparr>, h)
      else case lc_items c key of
        None \<Rightarrow> ((nil, False), c\<lparr>lc_misses := lc_misses c + 1\<rparr>, h)
      | Some item \<Rightarrow>
          if lruItem_isExpired item now then
            (let c1 = LRUCache_removeItem c item
             in ((nil, False), c1\<lparr>lc_misses := lc_misses c1 + 1\<rparr>, h))
          else
            (let c1 = LRUCache_moveToHead c item;
                 c2 = c1\<lparr>lc_hits := lc_hits c1 + 1\<rparr>;
                 (v, h') = make_copy h (li_value item)
             in ((v, True), c2, h')))"

definition LRUCache_SetWithTTL ::
  "LRUCache \<Rightarrow> heap \<Rightarrow> string \<Rightarrow> addr \<Rightarrow> duration \<Rightarrow> time
     \<Rightarrow> error option \<times> LRUCache \<times> heap" where
  "LRUCache_SetWithTTL c h key val ttl now =
     (if key = [] then (Some ErrKeyEmpty, c, h)
      else if lc_closed c then (Some ErrCacheClosed, c, h)
      else
        (let expiresAt = (if ttl > 0 then Add now ttl
                          else if lc_defaultTTL c > 0 then Add now (lc_defaultTTL c)
                          else 0);
             (valueCopy, h') = make_copy h val
         in case lc_items c key of
              Some existingItem \<Rightarrow>
                (let item = existingItem\<lparr>li_value := valueCopy, li_expiresAt := expiresAt\<rparr>;
                     c1 = c\<lparr>lc_items := (lc_items c)(key \<mapsto> item)\<rparr>
                 in (None, LRUCache_moveToHead c1 item, h'))
            | None \<Rightarrow>
                (let newItem = \<lparr>li_key = key, li_value = valueCopy, li_expiresAt = expiresAt\<rparr>;
                     c1 = (if len (lc_items c) \<ge> lc_maxSize c then LRUCache_evictTail c else c);
                     c2 = c1\<lparr>lc_items := (lc_items c1)(key \<mapsto> newItem)\<rparr>
                 in (None, LRUCache_addToHead c2 newItem, h'))))"

definition LRUCache_Set ::
  "LRUCache \<Rightarrow> heap \<Rightarrow> string \<Rightarrow> addr \<Rightarrow> time \<Rightarrow> error option \<times> LRUCache \<times> heap" where
  "LRUCache_Set c h key val now = LRUCache_SetWithTTL c h key val (lc_defaultTTL c) now"

definition LRUCache_Delete :: "LRUCache \<Rightarrow> string \<Rightarrow> bool \<times> LRUCache" where
  "LRUCache_Delete c key =
     (if key = [] then (False, c)
      else case lc_items c key of
        None \<Rightarrow> (False, c)
      | Some item \<Rightarrow> (True, LRUCache_removeItem c item))"

definition LRUCache_Clear :: "LRUCache \<Rightarrow> LRUCache" where
  "LRUCache_Clear c =
     c\<lparr>lc_items := Map.empty, lc_chain := [], lc_hits := 0, lc_misses := 0, lc_evictions := 0\<rparr>"


definition LRUCache_Close :: "LRUCache \<Rightarrow> LRUCache" where
  "LRUCache_Close c = (if lc_closed c then c else c\<lparr>lc_closed := True\<rparr>)"

definition LRUCache_expiredKeys :: "LRUCache \<Rightarrow> string list \<Rightarrow> time \<Rightarrow> string list" where
  "LRUCache_expiredKeys c ks now =
     filter (\<lambda>key. case lc_items c key of
                      None \<Rightarrow> False
                    | Some item \<Rightarrow> lruItem_isExpired item now) ks"

definition LRUCache_removeExpired :: "LRUCache \<Rightarrow> string list \<Rightarrow> time \<Rightarrow> LRUCache" where
  "LRUCache_removeExpired c ks now =
     (let expiredKeys = LRUCache_expiredKeys c ks now;
          c1 = fold (\<lambda>key c'. case lc_items c' key of
                                 Some item \<Rightarrow> LRUCache_removeItem c' item
                               | None \<Rightarrow> c') expiredKeys c
      in if length expiredKeys > 0
         then c1\<lparr>lc_evictions := lc_evictions c1 + int (length expiredKeys)\<rparr>
         else c1)"

text \<open>
  What holds of every \<open>LRUCache\<close> the constructor and the methods build: the chain
  threads exactly the nodes of the map, once each, every node is filed under its own
  key, and the empty key is never stored.
\<close>

definition LRUCache_wf :: "LRUCache \<Rightarrow> bool" where
  "LRUCache_wf c \<longleftrightarrow>
     finite (dom (lc_items c)) \<and> distinct (lc_chain c) \<and> set (lc_chain c) = dom (lc_items c)
     \<and> [] \<notin> dom (lc_items c)
     \<and> (\<forall>k item. lc_items c k = Some item \<longrightarrow> li_key item = k)
     \<and> 0 < lc_maxSize c"

section \<open>LFUCache (memory/lfu.go)\<close>

record lfuItem =
  fi_key :: string
  fi_value :: addr
  fi_expiresAt :: time
  fi_frequency :: int
  fi_lastAccess :: time

definition lfuItem_isExpired :: "lfuItem \<Rightarrow> time \<Rightarrow> bool" where
  "lfuItem_isExpired item now \<longleftrightarrow>
     \<not> IsZero (fi_expiresAt item) \<and> After now (fi_expiresAt item)"

definition lfuItem_touch :: "lfuItem \<Rightarrow> time \<Rightarrow> lfuItem" where
  "lfuItem_touch item now = item\<lparr>fi_frequency := fi_frequency item + 1, fi_lastAccess := now\<rparr>"

record LFUCache =
  fc_items :: "string \<Rightarrow> lfuItem option"
  fc_maxSize :: int
  fc_defaultTTL :: duration
  fc_closed :: bool
  fc_hits :: int
  fc_misses :: int
  fc_evictions :: int

definition NewLFUWithTTL :: "int \<Rightarrow> duration \<Rightarrow> LFUCache" where
  "NewLFUWithTTL maxSize defaultTTL =
     (let maxSize = (if maxSize \<le> 0 then 1000 else maxSize)
      in \<lparr>fc_items = Map.empty, fc_maxSize = maxSize, fc_defaultTTL = defaultTTL,
          fc_closed = False, fc_hits = 0, fc_misses = 0, fc_evictions = 0\<rparr>)"

definition NewLFU :: "int \<Rightarrow> LFUCache" where
  "NewLFU maxSize = NewLFUWithTTL maxSize 0"

definition LFUCache_Get ::
  "LFUCache \<Rightarrow> heap \<Rightarrow> string \<Rightarrow> time \<Rightarrow> (addr \<times> bool) \<times> LFUCache \<times> heap" where
  "LFUCache_Get c h key now =
     (if key = [] then ((nil, False), c\<lparr>fc_misses := fc_misses c + 1\<rparr>, h)
      else case fc_items c key of
        None \<Rightarrow> ((nil, False), c\<lparr>fc_misses := fc_misses c + 1\<rparr>, h)
      | Some item \<Rightarrow>
          if lfuItem_isExpired item now then
            ((nil, False),
             c\<lparr>fc_items := (fc_items c)(key := None), fc_misses := fc_misses c + 1\<rparr>, h)
          else
            (let item' = lfuItem_touch item now;
                 (v, h') = make_copy h (fi_value item')
             in ((v, True),
                 c\<lparr>fc_items := (fc_items c)(key \<mapsto> item'), fc_hits := fc_hits c + 1\<rparr>, h')))"

text \<open>
  The loop of \<open>evictLFU\<close>, one iteration per key the map yields; the loop state is
  \<open>(evictKey, minFrequency, oldestTime)\<close>.
\<close>

definition LFUCache_evictLFU_step ::
  "LFUCache \<Rightarrow> string \<Rightarrow> string \<times> int \<times> time \<Rightarrow> string \<times> int \<times> time" where
  "LFUCache_evictLFU_step c key st =
     (case st of (evictKey, minFrequency, oldestTime) \<Rightarrow>
        (case fc_items c key of
           None \<Rightarrow> st
         | Some item \<Rightarrow>
             (let frequency = fi_frequency item
              in if minFrequency = - 1 \<or> frequency < minFrequency
                    \<or> (frequency = minFrequency \<and> Before (fi_lastAccess item) oldestTime)
                 then (key, frequency, fi_lastAccess item)
                 else st)))"

definition LFUCache_evictLFU_scan :: "LFUCache \<Rightarrow> string list \<Rightarrow> string \<times> int \<times> time" where
  "LFUCache_evictLFU_scan c ks = fold (LFUCache_evictLFU_step c) ks ([], - 1, 0)"

definition LFUCache_evictLFU :: "LFUCache \<Rightarrow> string list \<Rightarrow> LFUCache" where
  "LFUCache_evictLFU c ks =
     (if len (fc_items c) = 0 then c
      else
        (let evictKey = fst (LFUCache_evictLFU_scan c ks)
         in if evictKey \<noteq> []
            then c\<lparr>fc_items := (fc_items c)(evictKey := None),
                   fc_evictions := fc_evictions c + 1\<rparr>
            else c))"

definition LFUCache_SetWithTTL ::
  "LFUCache \<Rightarrow> heap \<Rightarrow> string list \<Rightarrow> string \<Rightarrow> addr \<Rightarrow> duration \<Rightarrow> time
     \<Rightarrow> error option \<times> LFUCache \<times> heap" where
  "LFUCache_SetWithTTL c h ks key val ttl now =
     (if key = [] then (Some ErrKeyEmpty, c, h)
      else if fc_closed c then (Some ErrCacheClosed, c, h)
      else
        (let expiresAt = (if ttl > 0 then Add now ttl
                          else if fc_defaultTTL c > 0 then Add now (fc_defaultTTL c)
                          else 0);
             (valueCopy, h') = make_copy h val
         in case fc_items c key of
              Some existingItem \<Rightarrow>
                (None,
                 c\<lparr>fc_items := (fc_items c)(key \<mapsto>
                      existingItem\<lparr>fi_value := valueCopy, fi_expiresAt := expiresAt,
                                    fi_lastAccess := now\<rparr>)\<rparr>,
                 h')
            | None \<Rightarrow>
                (let c1 = (if len (fc_items c) \<ge> fc_maxSize c then LFUCache_evictLFU c ks else c);
                     newItem = \<lparr>fi_key = key, fi_value = valueCopy, fi_expiresAt = expiresAt,
                                fi_frequency = 1, fi_lastAccess = now\<rparr>
                 in (None, c1\<lparr>fc_items := (fc_items c1)(key \<mapsto> newItem)\<rparr>, h'))))"

definition LFUCache_Set ::
  "LFUCache \<Rightarrow> heap \<Rightarrow> string list \<Rightarrow> string \<Rightarrow> addr \<Rightarrow> time
     \<Rightarrow> error option \<times> LFUCache \<times> heap" where
  "LFUCache_Set c h ks key val now = LFUCache_SetWithTTL c h ks key val (fc_defaultTTL c) now"

definition LFUCache_Delete :: "LFUCache \<Rightarrow> string \<Rightarrow> bool \<times> LFUCache" where
  "LFUCache_Delete c key =
     (if key = [] then (False, c)
      else case fc_items c key of
        Some item \<Rightarrow> (True, c\<lparr>fc_items := (fc_items c)(key := None)\<rparr>)
      | None \<Rightarrow> (False, c))"

definition LFUCache_Clear :: "LFUCache \<Rightarrow> LFUCache" where
  "LFUCache_Clear c = c\<lparr>fc_items := Map.empty, fc_hits := 0, fc_misses := 0, fc_evictions := 0\<rparr>"


definition LFUCache_Close :: "LFUCache \<Rightarrow> LFUCache" where
  "LFUCache_Close c = (if fc_closed c then c else c\<lparr>fc_closed := True\<rparr>)"

definition LFUCache_expiredKeys :: "LFUCache \<Rightarrow> string list \<Rightarrow> time \<Rightarrow> string list" where
  "LFUCache_expiredKeys c ks now =
     filter (\<lambda>key. case fc_items c key of
                      None \<Rightarrow> False
                    | Some item \<Rightarrow> lfuItem_isExpired item now) ks"

definition LFUCache_removeExpired :: "LFUCache \<Rightarrow> string list \<Rightarrow> time \<Rightarrow> LFUCache" where
  "LFUCache_removeExpired c ks now =
     (let expiredKeys = LFUCache_expiredKeys c ks now;
          c1 = fold (\<lambda>key c'. c'\<lparr>fc_items := (fc_items c')(key := None)\<rparr>) expiredKeys c
      in if length expiredKeys > 0
         then c1\<lparr>fc_evictions := fc_evictions c1 + int (length expiredKeys)\<rparr>
         else c1)"

text \<open>
  What holds of every \<open>LFUCache\<close> the constructor and the methods build: finitely many
  entries, none under the empty key, and every frequency at least the initial \<open>1\<close>.
\<close>

definition LFUCache_wf :: "LFUCache \<Rightarrow> bool" where
  "LFUCache_wf c \<longleftrightarrow>
     finite (dom (fc_items c)) \<and> [] \<notin> dom (fc_items c)
     \<and> (\<forall>k item. fc_items c k = Some item \<longrightarrow> 1 \<le> fi_frequency item)
     \<and> 0 < fc_maxSize c"

section \<open>MemoryCache (config.go, memory.go)\<close>

text \<open>\<open>type EvictionPolicy int\<close> with the constants \<open>LRU\<close>, \<open>LFU\<close>, \<open>FIFO\<close> (\<open>iota\<close>).\<close>

type_synonym EvictionPolicy = int

definition LRU :: EvictionPolicy where
  "LRU = 0"

definition LFU :: EvictionPolicy where
  "LFU = 1"

definition FIFO :: EvictionPolicy where
  "FIFO = 2"

record Config =
  MaxSize :: int
  DefaultTTL :: duration
  CleanupInterval :: duration
  EvictionPolicy :: EvictionPolicy

definition DefaultConfig :: Config where
  "DefaultConfig =
     \<lparr>MaxSize = 1000, DefaultTTL = 5 * 60 * 1000000000, CleanupInterval = 60 * 1000000000,
      EvictionPolicy = LRU\<rparr>"

record Item =
  Value :: addr
  ExpiresAt :: time
  LastAccess :: time
  AccessCount :: int
  CreatedAt :: time

definition Item_IsExpired :: "Item \<Rightarrow> time \<Rightarrow> bool" where
  "Item_IsExpired item now \<longleftrightarrow> After now (ExpiresAt item)"

definition Item_Touch :: "Item \<Rightarrow> time \<Rightarrow> Item" where
  "Item_Touch item now = item\<lparr>LastAccess := now, AccessCount := AccessCount item + 1\<rparr>"

text \<open>\<open>mc_stopCh\<close> tells whether the channel \<open>stopCh\<close> has been closed.\<close>

record MemoryCache =
  mc_data :: "string \<Rightarrow> Item option"
  mc_config :: Config
  mc_stopCh :: bool
  mc_hits :: int
  mc_misses :: int
  mc_evictions :: int

definition NewMemoryCache :: "Config \<Rightarrow> MemoryCache" where
  "NewMemoryCache config =
     \<lparr>mc_data = Map.empty, mc_config = config, mc_stopCh = False,
      mc_hits = 0, mc_misses = 0, mc_evictions = 0\<rparr>"

definition MemoryCache_miss :: "MemoryCache \<Rightarrow> heap \<Rightarrow> (addr \<times> bool) \<times> MemoryCache \<times> heap" where
  "MemoryCache_miss c h = ((nil, False), c\<lparr>mc_misses := mc_misses c + 1\<rparr>, h)"

text \<open>
  \<open>Get\<close> in its three locked sections: the lookup, the re-check of an expired entry
  (which here assigns the outer \<open>item, exists\<close>), and the update of the access data.
\<close>

definition MemoryCache_Get ::
  "MemoryCache \<Rightarrow> heap \<Rightarrow> string \<Rightarrow> time \<Rightarrow> (addr \<times> bool) \<times> MemoryCache \<times> heap" where
  "MemoryCache_Get c h key now =
     (case mc_data c key of
        None \<Rightarrow> MemoryCache_miss c h
      | Some item \<Rightarrow>
          (let (c1, exists) =
                 (if Item_IsExpired item now then
                    (case mc_data c key of
                       None \<Rightarrow> (c, False)
                     | Some item2 \<Rightarrow>
                         if Item_IsExpired item2 now
                         then (c\<lparr>mc_data := (mc_data c)(key := None)\<rparr>, False)
                         else (c, True))
                  else (c, True))
           in if \<not> exists then MemoryCache_miss c1 h
              else
                (case mc_data c1 key of
                   None \<Rightarrow> MemoryCache_miss c1 h
                 | Some item3 \<Rightarrow>
                     if \<not> Item_IsExpired item3 now then
                       (let item4 = Item_Touch item3 now;
                            c2 = c1\<lparr>mc_data := (mc_data c1)(key \<mapsto> item4),
                                    mc_hits := mc_hits c1 + 1\<rparr>;
                            (v, h') = make_copy h (Value item4)
                        in ((v, True), c2, h'))
                     else MemoryCache_miss c1 h)))"

text \<open>The loop of \<open>evictLRU\<close>; the loop state is \<open>(oldestKey, oldestTime, first)\<close>.\<close>

definition MemoryCache_evictLRU_step ::
  "MemoryCache \<Rightarrow> string \<Rightarrow> string \<times> time \<times> bool \<Rightarrow> string \<times> time \<times> bool" where
  "MemoryCache_evictLRU_step c key st =
     (case st of (oldestKey, oldestTime, first) \<Rightarrow>
        (case mc_data c key of
           None \<Rightarrow> st
         | Some item \<Rightarrow>
             if first \<or> Before (LastAccess item) oldestTime
             then (key, LastAccess item, False)
             else st))"

definition MemoryCache_evictLRU :: "MemoryCache \<Rightarrow> string list \<Rightarrow> MemoryCache" where
  "MemoryCache_evictLRU c ks =
     (let oldestKey = fst (fold (MemoryCache_evictLRU_step c) ks ([], 0, True))
      in if oldestKey \<noteq> []
         then c\<lparr>mc_data := (mc_data c)(oldestKey := None), mc_evictions := mc_evictions c + 1\<rparr>
         else c)"

text \<open>The loop of \<open>evictLFU\<close>; the loop state is \<open>(evictKey, minAccess)\<close>.\<close>

definition MemoryCache_evictLFU_step ::
  "MemoryCache \<Rightarrow> string \<Rightarrow> string \<times> int \<Rightarrow> string \<times> int" where
  "MemoryCache_evictLFU_step c key st =
     (case st of (evictKey, minAccess) \<Rightarrow>
        (case mc_data c key of
           None \<Rightarrow> st
         | Some item \<Rightarrow>
             (let accessCount = AccessCount item
              in if minAccess = - 1 \<or> accessCount < minAccess
                 then (key, accessCount)
                 else st)))"

definition MemoryCache_evictLFU :: "MemoryCache \<Rightarrow> string list \<Rightarrow> MemoryCache" where
  "MemoryCache_evictLFU c ks =
     (let evictKey = fst (fold (MemoryCache_evictLFU_step c) ks ([], - 1))
      in if evictKey \<noteq> []
         then c\<lparr>mc_data := (mc_data c)(evictKey := None), mc_evictions := mc_evictions c + 1\<rparr>
         else c)"

text \<open>The loop of \<open>evictFIFO\<close>; the loop state is \<open>(oldestKey, oldestTime, first)\<close>.\<close>

definition MemoryCache_evictFIFO_step ::
  "MemoryCache \<Rightarrow> string \<Rightarrow> string \<times> time \<times> bool \<Rightarrow> string \<times> time \<times> bool" where
  "MemoryCache_evictFIFO_step c key st =
     (case st of (oldestKey, oldestTime, first) \<Rightarrow>
        (case mc_data c key of
           None \<Rightarrow> st
         | Some item \<Rightarrow>
             if first \<or> Before (CreatedAt item) oldestTime
             then (key, CreatedAt item, False)
             else st))"

definition MemoryCache_evictFIFO :: "MemoryCache \<Rightarrow> string list \<Rightarrow> MemoryCache" where
  "MemoryCache_evictFIFO c ks =
     (let oldestKey = fst (fold (MemoryCache_evictFIFO_step c) ks ([], 0, True))
      in if oldestKey \<noteq> []
         then c\<lparr>mc_data := (mc_data c)(oldestKey := None), mc_evictions := mc_evictions c + 1\<rparr>
         else c)"

definition MemoryCache_evict :: "MemoryCache \<Rightarrow> string list \<Rightarrow> MemoryCache" where
  "MemoryCache_evict c ks =
     (if len (mc_data c) = 0 then c
      else if EvictionPolicy (mc_config c) = LRU then MemoryCache_evictLRU c ks
      else if EvictionPolicy (mc_config c) = LFU then MemoryCache_evictLFU c ks
      else if EvictionPolicy (mc_config c) = FIFO then MemoryCache_evictFIFO c ks
      else MemoryCache_evictLRU c ks)"

definition MemoryCache_SetWithTTL ::
  "MemoryCache \<Rightarrow> heap \<Rightarrow> string list \<Rightarrow> string \<Rightarrow> addr \<Rightarrow> duration \<Rightarrow> time
     \<Rightarrow> error option \<times> MemoryCache \<times> heap" where
  "MemoryCache_SetWithTTL c h ks key val ttl now =
     (let expiresAt = (if ttl > 0 then Add now ttl
                       else if DefaultTTL (mc_config c) > 0 then Add now (DefaultTTL (mc_config c))
                       else Add now (100 * 365 * 24 * Hour));
          c1 = (if MaxSize (mc_config c) > 0 \<and> len (mc_data c) \<ge> MaxSize (mc_config c)
                then (case mc_data c key of
                        None \<Rightarrow> MemoryCache_evict c ks
                      | Some item \<Rightarrow> c)
                else c);
          (valueCopy, h') = make_copy h val
      in (None,
          c1\<lparr>mc_data := (mc_data c1)(key \<mapsto>
               \<lparr>Value = valueCopy, ExpiresAt = expiresAt, LastAccess = now, AccessCount = 1,
                CreatedAt = now\<rparr>)\<rparr>,
          h'))"

definition MemoryCache_Set ::
  "MemoryCache \<Rightarrow> heap \<Rightarrow> string list \<Rightarrow> string \<Rightarrow> addr \<Rightarrow> time
     \<Rightarrow> error option \<times> MemoryCache \<times> heap" where
  "MemoryCache_Set c h ks key val now =
     MemoryCache_SetWithTTL c h ks key val (DefaultTTL (mc_config c)) now"

definition MemoryCache_Delete :: "MemoryCache \<Rightarrow> string \<Rightarrow> bool \<times> MemoryCache" where
  "MemoryCache_Delete c key =
     (case mc_data c key of
        Some item \<Rightarrow> (True, c\<lparr>mc_data := (mc_data c)(key := None)\<rparr>)
      | None \<Rightarrow> (False, c))"

definition MemoryCache_Clear :: "MemoryCache \<Rightarrow> MemoryCache" where
  "MemoryCache_Clear c = c\<lparr>mc_data := Map.empty, mc_hits := 0, mc_misses := 0, mc_evictions := 0\<rparr>"


text \<open>\<open>Close\<close> closes \<open>stopCh\<close> once (\<open>sync.Once\<close>); it records nothing else.\<close>

definition MemoryCache_Close :: "MemoryCache \<Rightarrow> MemoryCache" where
  "MemoryCache_Close c = (if mc_stopCh c then c else c\<lparr>mc_stopCh := True\<rparr>)"

text \<open>The loop of \<open>removeExpired\<close>; the loop state is the cache and the count \<open>expired\<close>.\<close>

definition MemoryCache_removeExpired_step ::
  "time \<Rightarrow> string \<Rightarrow> MemoryCache \<times> int \<Rightarrow> MemoryCache \<times> int" where
  "MemoryCache_removeExpired_step now key st =
     (case st of (c, expired) \<Rightarrow>
        (case mc_data c key of
           None \<Rightarrow> st
         | Some item \<Rightarrow>
             if Item_IsExpired item now
             then (c\<lparr>mc_data := (mc_data c)(key := None)\<rparr>, expired + 1)
             else st))"

definition MemoryCache_removeExpired :: "MemoryCache \<Rightarrow> string list \<Rightarrow> time \<Rightarrow> MemoryCache" where
  "MemoryCache_removeExpired c ks now =
     (case fold (MemoryCache_removeExpired_step now) ks (c, 0) of (c1, expired) \<Rightarrow>
        if expired > 0 then c1\<lparr>mc_evictions := mc_evictions c1 + expired\<rparr> else c1)"

text \<open>
  What holds of every \<open>MemoryCache\<close> the constructor and the methods build: finitely
  many entries, each with an access count of at least the initial \<open>1\<close>.  (The empty
  key can be stored: no method rejects it.)
\<close>

definition MemoryCache_wf :: "MemoryCache \<Rightarrow> bool" where
  "MemoryCache_wf c \<longleftrightarrow>
     finite (dom (mc_data c)) \<and> (\<forall>k item. mc_data c k = Some item \<longrightarrow> 1 \<le> AccessCount item)"

section \<open>Properties of the byte store\<close>

lemma make_copy_eq: "make_copy h src = (brk h, snd (make_copy h src))"
  by (simp add: make_copy_def)

lemma make_copy_brk: "brk (snd (make_copy h src)) = Suc (brk h)"
  by (simp add: make_copy_def)

lemma make_copy_new: "slice_bytes (snd (make_copy h src)) (brk h) = slice_bytes h src"
  by (simp add: make_copy_def slice_bytes_def)

lemma make_copy_old: "a \<noteq> brk h \<Longrightarrow> slice_bytes (snd (make_copy h src)) a = slice_bytes h a"
  by (simp add: make_copy_def slice_bytes_def)

lemma overwrite_brk: "brk (overwrite h a bs) = brk h"
  by (simp add: overwrite_def)

lemma overwrite_other: "b \<noteq> a \<Longrightarrow> slice_bytes (overwrite h a bs) b = slice_bytes h b"
  by (simp add: overwrite_def slice_bytes_def)

text \<open>
  The pattern shared by the engines: \<open>Set\<close> copies the caller's slice \<open>v\<close> to a
  fresh array \<open>p\<close>, and each \<open>Get\<close> copies \<open>p\<close> to a fresh array it returns.  Whatever
  the caller writes into \<open>v\<close> after the \<open>Set\<close>, and into the first result \<open>r\<close> after
  the first \<open>Get\<close>, both results hold the bytes \<open>v\<close> had when \<open>Set\<close> was called.
\<close>

lemma copies_are_private:
  assumes v: "v < brk h"
    and h1: "h1 = snd (make_copy h v)"
    and r: "r = brk (overwrite h1 v bs1)"
    and h2: "h2 = snd (make_copy (overwrite h1 v bs1) (brk h))"
    and r2: "r2 = brk (overwrite h2 r bs2)"
    and h3: "h3 = snd (make_copy (overwrite h2 r bs2) (brk h))"
  shows "slice_bytes h2 r = slice_bytes h v \<and> slice_bytes h3 r2 = slice_bytes h v
         \<and> r \<noteq> v \<and> r2 \<noteq> r \<and> r2 \<noteq> v"
proof -
  let ?g1 = "overwrite h1 v bs1"
  let ?g2 = "overwrite h2 r bs2"
  have b1: "brk ?g1 = Suc (brk h)"
    by (simp add: h1 overwrite_brk make_copy_brk)
  have rv: "r = Suc (brk h)"
    using r b1 by simp
  have s1: "slice_bytes ?g1 (brk h) = slice_bytes h v"
    using v by (simp add: h1 overwrite_other make_copy_new)
  have a: "slice_bytes h2 r = slice_bytes h v"
    using make_copy_new [of ?g1 "brk h"] by (simp add: h2 rv b1 s1)
  have b2: "brk ?g2 = Suc (Suc (brk h))"
    by (simp add: h2 h1 overwrite_brk make_copy_brk)
  have s2: "slice_bytes ?g2 (brk h) = slice_bytes h v"
    using make_copy_old [of "brk h" ?g1 "brk h"] by (simp add: overwrite_other h2 rv b1 s1)
  have b: "slice_bytes h3 r2 = slice_bytes h v"
    using make_copy_new [of ?g2 "brk h"] by (simp add: h3 r2 b2 s2)
  show ?thesis
    using a b v rv r2 b2 by simp
qed

section \<open>Effects of the methods, case by case\<close>

subsection \<open>SimpleCache\<close>

lemma SimpleCache_SetWithTTL_ok:
  "key \<noteq> [] \<Longrightarrow> \<not> sc_closed c \<Longrightarrow>
   SimpleCache_SetWithTTL c h key v ttl now =
     (None,
      c\<lparr>sc_items := (sc_items c)(key \<mapsto>
           \<lparr>si_value = brk h,
            si_expiresAt = (if ttl > 0 then now + ttl
                            else if sc_defaultTTL c > 0 then now + sc_defaultTTL c else 0)\<rparr>)\<rparr>,
      snd (make_copy h v))"
  by (simp add: SimpleCache_SetWithTTL_def Let_def Add_def make_copy_def)

lemma SimpleCache_Get_absent:
  "sc_items c key = None \<Longrightarrow>
   SimpleCache_Get c h key now = ((nil, False), c\<lparr>sc_misses := sc_misses c + 1\<rparr>, h)"
  by (simp add: SimpleCache_Get_def SimpleCache_miss_def)

lemma SimpleCache_Get_live:
  "key \<noteq> [] \<Longrightarrow> sc_items c key = Some item \<Longrightarrow> \<not> simpleItem_isExpired item now \<Longrightarrow>
   SimpleCache_Get c h key now =
     ((brk h, True), c\<lparr>sc_hits := sc_hits c + 1\<rparr>, snd (make_copy h (si_value item)))"
  by (simp add: SimpleCache_Get_def SimpleCache_hit_def Let_def make_copy_def)

lemma SimpleCache_Get_expired:
  "key \<noteq> [] \<Longrightarrow> sc_items c key = Some item \<Longrightarrow> simpleItem_isExpired item now \<Longrightarrow>
   SimpleCache_Get c h key now =
     ((brk h, True), c\<lparr>sc_items := (sc_items c)(key := None), sc_hits := sc_hits c + 1\<rparr>,
      snd (make_copy h (si_value item)))"
  by (simp add: SimpleCache_Get_def SimpleCache_hit_def Let_def make_copy_def)

subsection \<open>LRUCache\<close>

lemma LRUCache_list_ops_fields [simp]:
  "lc_items (LRUCache_addToHead c item) = lc_items c"
  "lc_items (LRUCache_removeFromList c item) = lc_items c"
  "lc_items (LRUCache_moveToHead c item) = lc_items c"
  "lc_maxSize (LRUCache_moveToHead c item) = lc_maxSize c"
  "lc_defaultTTL (LRUCache_moveToHead c item) = lc_defaultTTL c"
  "lc_closed (LRUCache_moveToHead c item) = lc_closed c"
  "lc_hits (LRUCache_moveToHead c item) = lc_hits c"
  "lc_misses (LRUCache_moveToHead c item) = lc_misses c"
  "lc_evictions (LRUCache_moveToHead c item) = lc_evictions c"
  "lc_chain (LRUCache_moveToHead c item) = li_key item # remove1 (li_key item) (lc_chain c)"
  by (simp_all add: LRUCache_addToHead_def LRUCache_removeFromList_def LRUCache_moveToHead_def)

lemma LRUCache_removeItem_fields [simp]:
  "lc_items (LRUCache_removeItem c item) = (lc_items c)(li_key item := None)"
  "lc_chain (LRUCache_removeItem c item) = remove1 (li_key item) (lc_chain c)"
  "lc_maxSize (LRUCache_removeItem c item) = lc_maxSize c"
  "lc_defaultTTL (LRUCache_removeItem c item) = lc_defaultTTL c"
  "lc_closed (LRUCache_removeItem c item) = lc_closed c"
  "lc_hits (LRUCache_removeItem c item) = lc_hits c"
  "lc_misses (LRUCache_removeItem c item) = lc_misses c"
  "lc_evictions (LRUCache_removeItem c item) = lc_evictions c"
  by (simp_all add: LRUCache_removeItem_def LRUCache_removeFromList_def)

lemma LRUCache_Get_absent:
  "lc_items c key = None \<Longrightarrow>
   LRUCache_Get c h key now = ((nil, False), c\<lparr>lc_misses := lc_misses c + 1\<rparr>, h)"
  by (simp add: LRUCache_Get_def)

lemma LRUCache_Get_live:
  "key \<noteq> [] \<Longrightarrow> lc_items c key = Some item \<Longrightarrow> \<not> lruItem_isExpired item now \<Longrightarrow>
   LRUCache_Get c h key now =
     ((brk h, True), (LRUCache_moveToHead c item)\<lparr>lc_hits := lc_hits c + 1\<rparr>,
      snd (make_copy h (li_value item)))"
  by (simp add: LRUCache_Get_def Let_def make_copy_def)

lemma LRUCache_Get_expired:
  "key \<noteq> [] \<Longrightarrow> lc_items c key = Some item \<Longrightarrow> lruItem_isExpired item now \<Longrightarrow>
   LRUCache_Get c h key now =
     ((nil, False), (LRUCache_removeItem c item)\<lparr>lc_misses := lc_misses c + 1\<rparr>, h)"
  by (simp add: LRUCache_Get_def Let_def)

lemma LRUCache_SetWithTTL_overwrite:
  "key \<noteq> [] \<Longrightarrow> \<not> lc_closed c \<Longrightarrow> lc_items c key = Some existingItem \<Longrightarrow>
   item = existingItem\<lparr>li_value := brk h,
            li_expiresAt := (if ttl > 0 then now + ttl
                             else if lc_defaultTTL c > 0 then now + lc_defaultTTL c else 0)\<rparr> \<Longrightarrow>
   LRUCache_SetWithTTL c h key v ttl now =
     (None, LRUCache_moveToHead (c\<lparr>lc_items := (lc_items c)(key \<mapsto> item)\<rparr>) item,
      snd (make_copy h v))"
  by (simp add: LRUCache_SetWithTTL_def Let_def Add_def make_copy_def)

lemma LRUCache_SetWithTTL_new:
  "key \<noteq> [] \<Longrightarrow> \<not> lc_closed c \<Longrightarrow> lc_items c key = None \<Longrightarrow>
   newItem = \<lparr>li_key = key, li_value = brk h,
              li_expiresAt = (if ttl > 0 then now + ttl
                              else if lc_defaultTTL c > 0 then now + lc_defaultTTL c else 0)\<rparr> \<Longrightarrow>
   c1 = (if len (lc_items c) \<ge> lc_maxSize c then LRUCache_evictTail c else c) \<Longrightarrow>
   LRUCache_SetWithTTL c h key v ttl now =
     (None, LRUCache_addToHead (c1\<lparr>lc_items := (lc_items c1)(key \<mapsto> newItem)\<rparr>) newItem,
      snd (make_copy h v))"
  by (simp add: LRUCache_SetWithTTL_def Let_def Add_def make_copy_def)

subsection \<open>LFUCache\<close>

lemma LFUCache_Get_absent:
  "fc_items c key = None \<Longrightarrow>
   LFUCache_Get c h key now = ((nil, False), c\<lparr>fc_misses := fc_misses c + 1\<rparr>, h)"
  by (simp add: LFUCache_Get_def)

lemma LFUCache_Get_live:
  "key \<noteq> [] \<Longrightarrow> fc_items c key = Some item \<Longrightarrow> \<not> lfuItem_isExpired item now \<Longrightarrow>
   LFUCache_Get c h key now =
     ((brk h, True),
      c\<lparr>fc_items := (fc_items c)(key \<mapsto> lfuItem_touch item now), fc_hits := fc_hits c + 1\<rparr>,
      snd (make_copy h (fi_value item)))"
  by (simp add: LFUCache_Get_def Let_def make_copy_def lfuItem_touch_def)

lemma LFUCache_Get_expired:
  "key \<noteq> [] \<Longrightarrow> fc_items c key = Some item \<Longrightarrow> lfuItem_isExpired item now \<Longrightarrow>
   LFUCache_Get c h key now =
     ((nil, False),
      c\<lparr>fc_items := (fc_items c)(key := None), fc_misses := fc_misses c + 1\<rparr>, h)"
  by (simp add: LFUCache_Get_def Let_def)

lemma LFUCache_SetWithTTL_overwrite:
  "key \<noteq> [] \<Longrightarrow> \<not> fc_closed c \<Longrightarrow> fc_items c key = Some existingItem \<Longrightarrow>
   LFUCache_SetWithTTL c h ks key v ttl now =
     (None,
      c\<lparr>fc_items := (fc_items c)(key \<mapsto>
           existingItem\<lparr>fi_value := brk h,
              fi_expiresAt := (if ttl > 0 then now + ttl
                               else if fc_defaultTTL c > 0 then now + fc_defaultTTL c else 0),
              fi_lastAccess := now\<rparr>)\<rparr>,
      snd (make_copy h v))"
  by (simp add: LFUCache_SetWithTTL_def Let_def Add_def make_copy_def)

lemma LFUCache_SetWithTTL_new:
  "key \<noteq> [] \<Longrightarrow> \<not> fc_closed c \<Longrightarrow> fc_items c key = None \<Longrightarrow>
   c1 = (if len (fc_items c) \<ge> fc_maxSize c then LFUCache_evictLFU c ks else c) \<Longrightarrow>
   LFUCache_SetWithTTL c h ks key v ttl now =
     (None,
      c1\<lparr>fc_items := (fc_items c1)(key \<mapsto>
           \<lparr>fi_key = key, fi_value = brk h,
            fi_expiresAt = (if ttl > 0 then now + ttl
                            else if fc_defaultTTL c > 0 then now + fc_defaultTTL c else 0),
            fi_frequency = 1, fi_lastAccess = now\<rparr>)\<rparr>,
      snd (make_copy h v))"
  by (simp add: LFUCache_SetWithTTL_def Let_def Add_def make_copy_def)

subsection \<open>MemoryCache\<close>

lemma MemoryCache_Get_absent:
  "mc_data c key = None \<Longrightarrow>
   MemoryCache_Get c h key now = ((nil, False), c\<lparr>mc_misses := mc_misses c + 1\<rparr>, h)"
  by (simp add: MemoryCache_Get_def MemoryCache_miss_def)

lemma MemoryCache_Get_live:
  "mc_data c key = Some item \<Longrightarrow> \<not> Item_IsExpired item now \<Longrightarrow>
   MemoryCache_Get c h key now =
     ((brk h, True),
      c\<lparr>mc_data := (mc_data c)(key \<mapsto> Item_Touch item now), mc_hits := mc_hits c + 1\<rparr>,
      snd (make_copy h (Value item)))"
  by (simp add: MemoryCache_Get_def Let_def make_copy_def Item_Touch_def)

lemma MemoryCache_Get_expired:
  "mc_data c key = Some item \<Longrightarrow> Item_IsExpired item now \<Longrightarrow>
   MemoryCache_Get c h key now =
     ((nil, False),
      c\<lparr>mc_data := (mc_data c)(key := None), mc_misses := mc_misses c + 1\<rparr>, h)"
  by (simp add: MemoryCache_Get_def Let_def MemoryCache_miss_def)

lemma MemoryCache_SetWithTTL_eq:
  "c1 = (if MaxSize (mc_config c) > 0 \<and> len (mc_data c) \<ge> MaxSize (mc_config c)
            \<and> mc_data c key = None
         then MemoryCache_evict c ks else c) \<Longrightarrow>
   MemoryCache_SetWithTTL c h ks key v ttl now =
     (None,
      c1\<lparr>mc_data := (mc_data c1)(key \<mapsto>
           \<lparr>Value = brk h,
            ExpiresAt = (if ttl > 0 then now + ttl
                         else if DefaultTTL (mc_config c) > 0 then now + DefaultTTL (mc_config c)
                         else now + 100 * 365 * 24 * Hour),
            LastAccess = now, AccessCount = 1, CreatedAt = now\<rparr>)\<rparr>,
      snd (make_copy h v))"
  by (auto simp: MemoryCache_SetWithTTL_def Let_def Add_def make_copy_def split: option.splits)

section \<open>Statistics\<close>


lemma CalculateHitRate_counters:
  "Hits (CalculateHitRate s) = Hits s" "Misses (CalculateHitRate s) = Misses s"
  "Keys (CalculateHitRate s) = Keys s" "Evictions (CalculateHitRate s) = Evictions s"
  by (simp_all add: CalculateHitRate_def Let_def)



section \<open>Round trip of a value through the cache\<close>

lemma SimpleCache_Set_stores:
  assumes "key \<noteq> []" "\<not> sc_closed c"
  shows "\<exists>c1 item. SimpleCache_Set c h key v now = (None, c1, snd (make_copy h v))
           \<and> sc_items c1 key = Some item \<and> si_value item = brk h
           \<and> si_expiresAt item = (if sc_defaultTTL c > 0 then now + sc_defaultTTL c else 0)"
  using assms by (simp add: SimpleCache_Set_def SimpleCache_SetWithTTL_ok)

lemma LRUCache_Set_stores:
  assumes "key \<noteq> []" "\<not> lc_closed c"
  shows "\<exists>c1 item. LRUCache_Set c h key v now = (None, c1, snd (make_copy h v))
           \<and> lc_items c1 key = Some item \<and> li_value item = brk h
           \<and> li_expiresAt item = (if lc_defaultTTL c > 0 then now + lc_defaultTTL c else 0)"
proof (cases "lc_items c key")
  case None
  show ?thesis
    using assms None LRUCache_SetWithTTL_new [OF assms None refl refl, where h = h and ttl = "lc_defaultTTL c" and now = now and v = v]
    by (simp add: LRUCache_Set_def)
next
  case (Some existingItem)
  show ?thesis
    using assms LRUCache_SetWithTTL_overwrite [OF assms Some refl, where h = h and ttl = "lc_defaultTTL c" and now = now and v = v]
    by (simp add: LRUCache_Set_def)
qed

lemma LFUCache_Set_stores:
  assumes "key \<noteq> []" "\<not> fc_closed c"
  shows "\<exists>c1 item. LFUCache_Set c h ks key v now = (None, c1, snd (make_copy h v))
           \<and> fc_items c1 key = Some item \<and> fi_value item = brk h
           \<and> fi_expiresAt item = (if fc_defaultTTL c > 0 then now + fc_defaultTTL c else 0)"
proof (cases "fc_items c key")
  case None
  show ?thesis
    using assms LFUCache_SetWithTTL_new [OF assms None refl, where h = h and ks = ks and ttl = "fc_defaultTTL c" and now = now and v = v]
    by (simp add: LFUCache_Set_def)
next
  case (Some existingItem)
  show ?thesis
    using assms LFUCache_SetWithTTL_overwrite [OF assms Some, where h = h and ks = ks and ttl = "fc_defaultTTL c" and now = now and v = v]
    by (simp add: LFUCache_Set_def)
qed

lemma MemoryCache_Set_stores:
  "\<exists>c1 item. MemoryCache_Set c h ks key v now = (None, c1, snd (make_copy h v))
     \<and> mc_data c1 key = Some item \<and> Value item = brk h
     \<and> ExpiresAt item = (if DefaultTTL (mc_config c) > 0 then now + DefaultTTL (mc_config c)
                          else now + 100 * 365 * 24 * Hour)"
  using MemoryCache_SetWithTTL_eq [OF refl, where c = c and key = key and ks = ks and h = h and v = v and ttl = "DefaultTTL (mc_config c)" and now = now]
  by (simp add: MemoryCache_Set_def)

lemma SimpleCache_Get_keeps:
  assumes "key \<noteq> []" "sc_items c key = Some item" "\<not> simpleItem_isExpired item now"
  shows "\<exists>c2. SimpleCache_Get c h key now = ((brk h, True), c2, snd (make_copy h (si_value item)))
           \<and> sc_items c2 key = Some item"
  using assms by (simp add: SimpleCache_Get_live)

lemma LRUCache_Get_keeps:
  assumes "key \<noteq> []" "lc_items c key = Some item" "\<not> lruItem_isExpired item now"
  shows "\<exists>c2. LRUCache_Get c h key now = ((brk h, True), c2, snd (make_copy h (li_value item)))
           \<and> lc_items c2 key = Some item"
  using assms by (simp add: LRUCache_Get_live)

lemma LFUCache_Get_keeps:
  assumes "key \<noteq> []" "fc_items c key = Some item" "\<not> lfuItem_isExpired item now"
  shows "\<exists>c2 item'. LFUCache_Get c h key now
             = ((brk h, True), c2, snd (make_copy h (fi_value item)))
           \<and> fc_items c2 key = Some item' \<and> fi_value item' = fi_value item
           \<and> fi_expiresAt item' = fi_expiresAt item"
  using assms by (simp add: LFUCache_Get_live lfuItem_touch_def)

lemma MemoryCache_Get_keeps:
  assumes "mc_data c key = Some item" "\<not> Item_IsExpired item now"
  shows "\<exists>c2 item'. MemoryCache_Get c h key now
             = ((brk h, True), c2, snd (make_copy h (Value item)))
           \<and> mc_data c2 key = Some item' \<and> Value item' = Value item
           \<and> ExpiresAt item' = ExpiresAt item"
  using assms by (simp add: MemoryCache_Get_live Item_Touch_def)

lemma SimpleCache_roundtrip:
  assumes k: "key \<noteq> []" and o: "\<not> sc_closed c" and v: "v < brk h"
    and t: "0 < sc_defaultTTL c \<longrightarrow> now' \<le> now + sc_defaultTTL c \<and> now'' \<le> now + sc_defaultTTL c"
    and s: "SimpleCache_Set c h key v now = (e, c1, h1)"
    and g1: "SimpleCache_Get c1 (overwrite h1 v bs1) key now' = ((r, found), c2, h2)"
    and g2: "SimpleCache_Get c2 (overwrite h2 r bs2) key now'' = ((r2, found2), c3, h3)"
  shows "e = None \<and> found \<and> slice_bytes h2 r = slice_bytes h v
         \<and> found2 \<and> slice_bytes h3 r2 = slice_bytes h v"
proof -
  obtain item where s': "e = None" "h1 = snd (make_copy h v)"
      and i1: "sc_items c1 key = Some item" and iv: "si_value item = brk h"
      and ie: "si_expiresAt item = (if sc_defaultTTL c > 0 then now + sc_defaultTTL c else 0)"
    using SimpleCache_Set_stores [OF k o, where h = h and v = v and now = now] s by auto
  have live: "\<not> simpleItem_isExpired item now'" "\<not> simpleItem_isExpired item now''"
    using t by (auto simp: simpleItem_isExpired_def ie IsZero_def After_def)
  have g1': "r = brk (overwrite h1 v bs1)" "found"
      "h2 = snd (make_copy (overwrite h1 v bs1) (brk h))" and i2: "sc_items c2 key = Some item"
    using SimpleCache_Get_keeps [OF k i1 live(1), where h = "overwrite h1 v bs1"] g1 by (auto simp: iv)
  have g2': "r2 = brk (overwrite h2 r bs2)" "found2"
      "h3 = snd (make_copy (overwrite h2 r bs2) (brk h))"
    using SimpleCache_Get_keeps [OF k i2 live(2), where h = "overwrite h2 r bs2"] g2 by (auto simp: iv)
  show ?thesis
    using copies_are_private [OF v s'(2) g1'(1) g1'(3) g2'(1) g2'(3)] s'(1) g1'(2) g2'(2) by simp
qed

lemma LRUCache_roundtrip:
  assumes k: "key \<noteq> []" and o: "\<not> lc_closed c" and v: "v < brk h"
    and t: "0 < lc_defaultTTL c \<longrightarrow> now' \<le> now + lc_defaultTTL c \<and> now'' \<le> now + lc_defaultTTL c"
    and s: "LRUCache_Set c h key v now = (e, c1, h1)"
    and g1: "LRUCache_Get c1 (overwrite h1 v bs1) key now' = ((r, found), c2, h2)"
    and g2: "LRUCache_Get c2 (overwrite h2 r bs2) key now'' = ((r2, found2), c3, h3)"
  shows "e = None \<and> found \<and> slice_bytes h2 r = slice_bytes h v
         \<and> found2 \<and> slice_bytes h3 r2 = slice_bytes h v"
proof -
  obtain item where s': "e = None" "h1 = snd (make_copy h v)"
      and i1: "lc_items c1 key = Some item" and iv: "li_value item = brk h"
      and ie: "li_expiresAt item = (if lc_defaultTTL c > 0 then now + lc_defaultTTL c else 0)"
    using LRUCache_Set_stores [OF k o, where h = h and v = v and now = now] s by auto
  have live: "\<not> lruItem_isExpired item now'" "\<not> lruItem_isExpired item now''"
    using t by (auto simp: lruItem_isExpired_def ie IsZero_def After_def)
  have g1': "r = brk (overwrite h1 v bs1)" "found"
      "h2 = snd (make_copy (overwrite h1 v bs1) (brk h))" and i2: "lc_items c2 key = Some item"
    using LRUCache_Get_keeps [OF k i1 live(1), where h = "overwrite h1 v bs1"] g1 by (auto simp: iv)
  have g2': "r2 = brk (overwrite h2 r bs2)" "found2"
      "h3 = snd (make_copy (overwrite h2 r bs2) (brk h))"
    using LRUCache_Get_keeps [OF k i2 live(2), where h = "overwrite h2 r bs2"] g2 by (auto simp: iv)
  show ?thesis
    using copies_are_private [OF v s'(2) g1'(1) g1'(3) g2'(1) g2'(3)] s'(1) g1'(2) g2'(2) by simp
qed

lemma LFUCache_roundtrip:
  assumes k: "key \<noteq> []" and o: "\<not> fc_closed c" and v: "v < brk h"
    and t: "0 < fc_defaultTTL c \<longrightarrow> now' \<le> now + fc_defaultTTL c \<and> now'' \<le> now + fc_defaultTTL c"
    and s: "LFUCache_Set c h ks key v now = (e, c1, h1)"
    and g1: "LFUCache_Get c1 (overwrite h1 v bs1) key now' = ((r, found), c2, h2)"
    and g2: "LFUCache_Get c2 (overwrite h2 r bs2) key now'' = ((r2, found2), c3, h3)"
  shows "e = None \<and> found \<and> slice_bytes h2 r = slice_bytes h v
         \<and> found2 \<and> slice_bytes h3 r2 = slice_bytes h v"
proof -
  obtain item where s': "e = None" "h1 = snd (make_copy h v)"
      and i1: "fc_items c1 key = Some item" and iv: "fi_value item = brk h"
      and ie: "fi_expiresAt item = (if fc_defaultTTL c > 0 then now + fc_defaultTTL c else 0)"
    using LFUCache_Set_stores [OF k o, where h = h and v = v and now = now and ks = ks] s by auto
  have live: "\<not> lfuItem_isExpired item now'"
    using t by (auto simp: lfuItem_isExpired_def ie IsZero_def After_def)
  obtain item' where g1': "r = brk (overwrite h1 v bs1)" "found"
      "h2 = snd (make_copy (overwrite h1 v bs1) (brk h))" and i2: "fc_items c2 key = Some item'"
      and iv': "fi_value item' = brk h" and ie': "fi_expiresAt item' = fi_expiresAt item"
    using LFUCache_Get_keeps [OF k i1 live, where h = "overwrite h1 v bs1"] g1 by (auto simp: iv)
  have live': "\<not> lfuItem_isExpired item' now''"
    using t by (auto simp: lfuItem_isExpired_def ie ie' IsZero_def After_def)
  have g2': "r2 = brk (overwrite h2 r bs2)" "found2"
      "h3 = snd (make_copy (overwrite h2 r bs2) (brk h))"
    using LFUCache_Get_keeps [OF k i2 live', where h = "overwrite h2 r bs2"] g2 by (auto simp: iv')
  show ?thesis
    using copies_are_private [OF v s'(2) g1'(1) g1'(3) g2'(1) g2'(3)] s'(1) g1'(2) g2'(2) by simp
qed

lemma MemoryCache_roundtrip:
  assumes v: "v < brk h"
    and t: "now' \<le> now + (if DefaultTTL (mc_config c) > 0 then DefaultTTL (mc_config c)
                            else 100 * 365 * 24 * Hour)
            \<and> now'' \<le> now + (if DefaultTTL (mc_config c) > 0 then DefaultTTL (mc_config c)
                               else 100 * 365 * 24 * Hour)"
    and s: "MemoryCache_Set c h ks key v now = (e, c1, h1)"
    and g1: "MemoryCache_Get c1 (overwrite h1 v bs1) key now' = ((r, found), c2, h2)"
    and g2: "MemoryCache_Get c2 (overwrite h2 r bs2) key now'' = ((r2, found2), c3, h3)"
  shows "e = None \<and> found \<and> slice_bytes h2 r = slice_bytes h v
         \<and> found2 \<and> slice_bytes h3 r2 = slice_bytes h v"
proof -
  obtain item where s': "e = None" "h1 = snd (make_copy h v)"
      and i1: "mc_data c1 key = Some item" and iv: "Value item = brk h"
      and ie: "ExpiresAt item = (if DefaultTTL (mc_config c) > 0
                                 then now + DefaultTTL (mc_config c)
                                 else now + 100 * 365 * 24 * Hour)"
    using MemoryCache_Set_stores [where c = c and h = h and v = v and now = now and ks = ks and key = key] s by auto
  have live: "\<not> Item_IsExpired item now'"
    using t by (auto simp: Item_IsExpired_def ie After_def split: if_splits)
  obtain item' where g1': "r = brk (overwrite h1 v bs1)" "found"
      "h2 = snd (make_copy (overwrite h1 v bs1) (brk h))" and i2: "mc_data c2 key = Some item'"
      and iv': "Value item' = brk h" and ie': "ExpiresAt item' = ExpiresAt item"
    using MemoryCache_Get_keeps [OF i1 live, where h = "overwrite h1 v bs1"] g1 by (auto simp: iv)
  have live': "\<not> Item_IsExpired item' now''"
    using t by (auto simp: Item_IsExpired_def ie ie' After_def split: if_splits)
  have g2': "r2 = brk (overwrite h2 r bs2)" "found2"
      "h3 = snd (make_copy (overwrite h2 r bs2) (brk h))"
    using MemoryCache_Get_keeps [OF i2 live', where h = "overwrite h2 r bs2"] g2 by (auto simp: iv')
  show ?thesis
    using copies_are_private [OF v s'(2) g1'(1) g1'(3) g2'(1) g2'(3)] s'(1) g1'(2) g2'(2) by simp
qed
text \<open>
  C1.  For each of the four engines, a non-empty key and a slice \<open>v\<close> the caller
  holds: \<open>Set(key, v)\<close> on an open cache returns no error, and a \<open>Get(key)\<close> that
  follows before the entry can expire returns \<open>true\<close> and a slice with the bytes \<open>v\<close>
  had when \<open>Set\<close> was called, even if the caller has overwritten \<open>v\<close> with arbitrary
  bytes \<open>bs1\<close> in between.  Overwriting the returned slice with arbitrary bytes
  \<open>bs2\<close> does not change what the next \<open>Get(key)\<close> returns.  (\<open>MemoryCache\<close> has no
  closed state.)
\<close>

theorem Set_Get_roundtrip:
  assumes "key \<noteq> []" and "v < brk h"
  shows
    "(\<not> sc_closed sc \<and>
      (0 < sc_defaultTTL sc \<longrightarrow> now' \<le> now + sc_defaultTTL sc \<and> now'' \<le> now + sc_defaultTTL sc)
      \<longrightarrow> (case SimpleCache_Set sc h key v now of (e, c1, h1) \<Rightarrow>
             e = None \<and>
             (case SimpleCache_Get c1 (overwrite h1 v bs1) key now' of ((r, found), c2, h2) \<Rightarrow>
                found \<and> slice_bytes h2 r = slice_bytes h v \<and>
                (case SimpleCache_Get c2 (overwrite h2 r bs2) key now'' of ((r2, found2), c3, h3) \<Rightarrow>
                   found2 \<and> slice_bytes h3 r2 = slice_bytes h v))))
     \<and> (\<not> lc_closed lc \<and>
      (0 < lc_defaultTTL lc \<longrightarrow> now' \<le> now + lc_defaultTTL lc \<and> now'' \<le> now + lc_defaultTTL lc)
      \<longrightarrow> (case LRUCache_Set lc h key v now of (e, c1, h1) \<Rightarrow>
             e = None \<and>
             (case LRUCache_Get c1 (overwrite h1 v bs1) key now' of ((r, found), c2, h2) \<Rightarrow>
                found \<and> slice_bytes h2 r = slice_bytes h v \<and>
                (case LRUCache_Get c2 (overwrite h2 r bs2) key now'' of ((r2, found2), c3, h3) \<Rightarrow>
                   found2 \<and> slice_bytes h3 r2 = slice_bytes h v))))
     \<and> (\<not> fc_closed fc \<and>
      (0 < fc_defaultTTL fc \<longrightarrow> now' \<le> now + fc_defaultTTL fc \<and> now'' \<le> now + fc_defaultTTL fc)
      \<longrightarrow> (case LFUCache_Set fc h ks key v now of (e, c1, h1) \<Rightarrow>
             e = None \<and>
             (case LFUCache_Get c1 (overwrite h1 v bs1) key now' of ((r, found), c2, h2) \<Rightarrow>
                found \<and> slice_bytes h2 r = slice_bytes h v \<and>
                (case LFUCache_Get c2 (overwrite h2 r bs2) key now'' of ((r2, found2), c3, h3) \<Rightarrow>
                   found2 \<and> slice_bytes h3 r2 = slice_bytes h v))))
     \<and> (now' \<le> now + (if DefaultTTL (mc_config mc) > 0 then DefaultTTL (mc_config mc)
                         else 100 * 365 * 24 * Hour)
        \<and> now'' \<le> now + (if DefaultTTL (mc_config mc) > 0 then DefaultTTL (mc_config mc)
                           else 100 * 365 * 24 * Hour)
      \<longrightarrow> (case MemoryCache_Set mc h ks key v now of (e, c1, h1) \<Rightarrow>
             e = None \<and>
             (case MemoryCache_Get c1 (overwrite h1 v bs1) key now' of ((r, found), c2, h2) \<Rightarrow>
                found \<and> slice_bytes h2 r = slice_bytes h v \<and>
                (case MemoryCache_Get c2 (overwrite h2 r bs2) key now'' of ((r2, found2), c3, h3) \<Rightarrow>
                   found2 \<and> slice_bytes h3 r2 = slice_bytes h v))))"
proof (intro conjI impI)
  assume a: "\<not> sc_closed sc \<and>
      (0 < sc_defaultTTL sc \<longrightarrow> now' \<le> now + sc_defaultTTL sc \<and> now'' \<le> now + sc_defaultTTL sc)"
  show "case SimpleCache_Set sc h key v now of (e, c1, h1) \<Rightarrow>
             e = None \<and>
             (case SimpleCache_Get c1 (overwrite h1 v bs1) key now' of ((r, found), c2, h2) \<Rightarrow>
                found \<and> slice_bytes h2 r = slice_bytes h v \<and>
                (case SimpleCache_Get c2 (overwrite h2 r bs2) key now'' of ((r2, found2), c3, h3) \<Rightarrow>
                   found2 \<and> slice_bytes h3 r2 = slice_bytes h v))"
    using SimpleCache_roundtrip [OF assms(1) conjunct1 [OF a] assms(2) conjunct2 [OF a]]
    by (simp split: prod.splits) blast
next
  assume a: "\<not> lc_closed lc \<and>
      (0 < lc_defaultTTL lc \<longrightarrow> now' \<le> now + lc_defaultTTL lc \<and> now'' \<le> now + lc_defaultTTL lc)"
  show "case LRUCache_Set lc h key v now of (e, c1, h1) \<Rightarrow>
             e = None \<and>
             (case LRUCache_Get c1 (overwrite h1 v bs1) key now' of ((r, found), c2, h2) \<Rightarrow>
                found \<and> slice_bytes h2 r = slice_bytes h v \<and>
                (case LRUCache_Get c2 (overwrite h2 r bs2) key now'' of ((r2, found2), c3, h3) \<Rightarrow>
                   found2 \<and> slice_bytes h3 r2 = slice_bytes h v))"
    using LRUCache_roundtrip [OF assms(1) conjunct1 [OF a] assms(2) conjunct2 [OF a]]
    by (simp split: prod.splits) blast
next
  assume a: "\<not> fc_closed fc \<and>
      (0 < fc_defaultTTL fc \<longrightarrow> now' \<le> now + fc_defaultTTL fc \<and> now'' \<le> now + fc_defaultTTL fc)"
  show "case LFUCache_Set fc h ks key v now of (e, c1, h1) \<Rightarrow>
             e = None \<and>
             (case LFUCache_Get c1 (overwrite h1 v bs1) key now' of ((r, found), c2, h2) \<Rightarrow>
                found \<and> slice_bytes h2 r = slice_bytes h v \<and>
                (case LFUCache_Get c2 (overwrite h2 r bs2) key now'' of ((r2, found2), c3, h3) \<Rightarrow>
                   found2 \<and> slice_bytes h3 r2 = slice_bytes h v))"
    using LFUCache_roundtrip [OF assms(1) conjunct1 [OF a] assms(2) conjunct2 [OF a]]
    by (simp split: prod.splits) blast
next
  assume a: "now' \<le> now + (if DefaultTTL (mc_config mc) > 0 then DefaultTTL (mc_config mc)
                         else 100 * 365 * 24 * Hour)
        \<and> now'' \<le> now + (if DefaultTTL (mc_config mc) > 0 then DefaultTTL (mc_config mc)
                           else 100 * 365 * 24 * Hour)"
  show "case MemoryCache_Set mc h ks key v now of (e, c1, h1) \<Rightarrow>
             e = None \<and>
             (case MemoryCache_Get c1 (overwrite h1 v bs1) key now' of ((r, found), c2, h2) \<Rightarrow>
                found \<and> slice_bytes h2 r = slice_bytes h v \<and>
                (case MemoryCache_Get c2 (overwrite h2 r bs2) key now'' of ((r2, found2), c3, h3) \<Rightarrow>
                   found2 \<and> slice_bytes h3 r2 = slice_bytes h v))"
    using MemoryCache_roundtrip [OF assms(2) a]
    by (simp split: prod.splits) blast
qed
text \<open>
  An instance: fresh caches, the key \<open>k\<close>, and a caller's slice at address \<open>1\<close>
  holding the bytes \<open>104, 105\<close>.
\<close>

theorem Set_Get_roundtrip_witness:
  "(case SimpleCache_Set NewSimple \<lparr>cells = (\<lambda>a. None)(1 \<mapsto> [104, 105]), brk = 2\<rparr> ''k'' 1 1000
      of (e, c1, h1) \<Rightarrow>
        e = None \<and>
        (case SimpleCache_Get c1 (overwrite h1 1 [0]) ''k'' 1001 of ((r, found), c2, h2) \<Rightarrow>
           found \<and> slice_bytes h2 r = [104, 105] \<and>
           (case SimpleCache_Get c2 (overwrite h2 r [7]) ''k'' 1002 of ((r2, found2), c3, h3) \<Rightarrow>
              found2 \<and> slice_bytes h3 r2 = [104, 105])))
   \<and> (case LRUCache_Set (NewLRU 3) \<lparr>cells = (\<lambda>a. None)(1 \<mapsto> [104, 105]), brk = 2\<rparr> ''k'' 1 1000
      of (e, c1, h1) \<Rightarrow>
        e = None \<and>
        (case LRUCache_Get c1 (overwrite h1 1 [0]) ''k'' 1001 of ((r, found), c2, h2) \<Rightarrow>
           found \<and> slice_bytes h2 r = [104, 105] \<and>
           (case LRUCache_Get c2 (overwrite h2 r [7]) ''k'' 1002 of ((r2, found2), c3, h3) \<Rightarrow>
              found2 \<and> slice_bytes h3 r2 = [104, 105])))
   \<and> (case LFUCache_Set (NewLFU 3) \<lparr>cells = (\<lambda>a. None)(1 \<mapsto> [104, 105]), brk = 2\<rparr> [] ''k'' 1 1000
      of (e, c1, h1) \<Rightarrow>
        e = None \<and>
        (case LFUCache_Get c1 (overwrite h1 1 [0]) ''k'' 1001 of ((r, found), c2, h2) \<Rightarrow>
           found \<and> slice_bytes h2 r = [104, 105] \<and>
           (case LFUCache_Get c2 (overwrite h2 r [7]) ''k'' 1002 of ((r2, found2), c3, h3) \<Rightarrow>
              found2 \<and> slice_bytes h3 r2 = [104, 105])))
   \<and> (case MemoryCache_Set (NewMemoryCache DefaultConfig)
            \<lparr>cells = (\<lambda>a. None)(1 \<mapsto> [104, 105]), brk = 2\<rparr> [] ''k'' 1 1000
      of (e, c1, h1) \<Rightarrow>
        e = None \<and>
        (case MemoryCache_Get c1 (overwrite h1 1 [0]) ''k'' 1001 of ((r, found), c2, h2) \<Rightarrow>
           found \<and> slice_bytes h2 r = [104, 105] \<and>
           (case MemoryCache_Get c2 (overwrite h2 r [7]) ''k'' 1002 of ((r2, found2), c3, h3) \<Rightarrow>
              found2 \<and> slice_bytes h3 r2 = [104, 105])))"
proof -
  let ?h = "\<lparr>cells = (\<lambda>a. None)(1 \<mapsto> [104, 105 :: byte]), brk = 2\<rparr>"
  have k: "''k'' \<noteq> []" and v: "(1 :: addr) < brk ?h" and b: "slice_bytes ?h 1 = [104, 105]"
    by (simp_all add: slice_bytes_def)
  have o: "\<not> sc_closed NewSimple" "\<not> lc_closed (NewLRU 3)" "\<not> fc_closed (NewLFU 3)"
    "\<not> 0 < sc_defaultTTL NewSimple" "\<not> 0 < lc_defaultTTL (NewLRU 3)"
    "\<not> 0 < fc_defaultTTL (NewLFU 3)"
    "DefaultTTL (mc_config (NewMemoryCache DefaultConfig)) = 300000000000"
    by (simp_all add: NewSimple_def NewSimpleWithTTL_def NewLRU_def NewLRUWithTTL_def
        NewLFU_def NewLFUWithTTL_def NewMemoryCache_def DefaultConfig_def)
  show ?thesis
    using Set_Get_roundtrip [OF k v, where sc = NewSimple and lc = "NewLRU 3" and fc = "NewLFU 3"
        and mc = "NewMemoryCache DefaultConfig" and ks = "[]" and now = 1000 and now' = 1001
        and now'' = 1002 and ?bs1.0 = "[0]" and ?bs2.0 = "[7]"]
    unfolding b by (simp only: o) simp
qed

section \<open>Errors of Set and SetWithTTL\<close>











section \<open>Reading an entry after its expiry\<close>

lemma LRUCache_SetWithTTL_stores:
  assumes "key \<noteq> []" "\<not> lc_closed c"
  shows "\<exists>c1 item. LRUCache_SetWithTTL c h key v ttl now = (None, c1, snd (make_copy h v))
           \<and> lc_items c1 key = Some item \<and> li_value item = brk h
           \<and> (LRUCache_wf c \<longrightarrow> li_key item = key)
           \<and> li_expiresAt item = (if ttl > 0 then now + ttl
                                   else if lc_defaultTTL c > 0 then now + lc_defaultTTL c else 0)"
proof (cases "lc_items c key")
  case None
  show ?thesis
    using assms None
      LRUCache_SetWithTTL_new [OF assms None refl refl, where h = h and ttl = ttl and now = now and v = v]
    by simp
next
  case (Some existingItem)
  show ?thesis
    using assms Some
      LRUCache_SetWithTTL_overwrite [OF assms Some refl, where h = h and ttl = ttl and now = now and v = v]
    by (simp add: LRUCache_wf_def)
qed

lemma LFUCache_SetWithTTL_stores:
  assumes "key \<noteq> []" "\<not> fc_closed c"
  shows "\<exists>c1 item. LFUCache_SetWithTTL c h ks key v ttl now = (None, c1, snd (make_copy h v))
           \<and> fc_items c1 key = Some item \<and> fi_value item = brk h
           \<and> fi_expiresAt item = (if ttl > 0 then now + ttl
                                   else if fc_defaultTTL c > 0 then now + fc_defaultTTL c else 0)"
proof (cases "fc_items c key")
  case None
  show ?thesis
    using assms
      LFUCache_SetWithTTL_new [OF assms None refl, where h = h and ks = ks and ttl = ttl and now = now and v = v]
    by simp
next
  case (Some existingItem)
  show ?thesis
    using assms
      LFUCache_SetWithTTL_overwrite [OF assms Some, where h = h and ks = ks and ttl = ttl and now = now and v = v]
    by simp
qed

lemma MemoryCache_SetWithTTL_stores:
  "\<exists>c1 item. MemoryCache_SetWithTTL c h ks key v ttl now = (None, c1, snd (make_copy h v))
     \<and> mc_data c1 key = Some item \<and> Value item = brk h
     \<and> ExpiresAt item = (if ttl > 0 then now + ttl
                          else if DefaultTTL (mc_config c) > 0 then now + DefaultTTL (mc_config c)
                          else now + 100 * 365 * 24 * Hour)"
  using MemoryCache_SetWithTTL_eq [OF refl, where c = c and key = key and ks = ks and h = h
      and v = v and ttl = ttl and now = now]
  by simp

text \<open>
  In \<open>LRUCache\<close>, \<open>LFUCache\<close> and \<open>MemoryCache\<close>, a \<open>Get\<close> of a key stored with
  a positive TTL, made once the clock has passed the expiry, returns \<open>(nil, false)\<close>,
  counts a miss and removes the entry.  (Clock readings are positive, so an expiry
  time is never the zero \<open>Time\<close>.)
\<close>

lemma LRUCache_expired_Get:
  assumes w: "LRUCache_wf c"
    and k: "key \<noteq> []" and o: "\<not> lc_closed c" and ttl: "0 < ttl" and n: "0 \<le> now"
    and s: "LRUCache_SetWithTTL c h key v ttl now = (e, c1, h1)"
    and late: "now + ttl < now'"
  shows "\<exists>c2. LRUCache_Get c1 h' key now' = ((nil, False), c2, h')
     \<and> lc_items c2 key = None \<and> lc_misses c2 = lc_misses c1 + 1 \<and> lc_hits c2 = lc_hits c1"
proof -
  obtain item where i: "lc_items c1 key = Some item" "li_expiresAt item = now + ttl"
      "li_key item = key"
    using LRUCache_SetWithTTL_stores [OF k o, where h = h and v = v and ttl = ttl and now = now]
      s ttl w by auto
  have x: "lruItem_isExpired item now'"
    using ttl n late by (simp add: lruItem_isExpired_def i IsZero_def After_def)
  show ?thesis
    using LRUCache_Get_expired [OF k i(1) x, where h = h'] by (simp add: i)
qed

lemma LFUCache_expired_Get:
  assumes k: "key \<noteq> []" and o: "\<not> fc_closed c" and ttl: "0 < ttl" and n: "0 \<le> now"
    and s: "LFUCache_SetWithTTL c h ks key v ttl now = (e, c1, h1)"
    and late: "now + ttl < now'"
  shows "\<exists>c2. LFUCache_Get c1 h' key now' = ((nil, False), c2, h')
     \<and> fc_items c2 key = None \<and> fc_misses c2 = fc_misses c1 + 1 \<and> fc_hits c2 = fc_hits c1"
proof -
  obtain item where i: "fc_items c1 key = Some item" "fi_expiresAt item = now + ttl"
    using LFUCache_SetWithTTL_stores [OF k o, where h = h and v = v and ttl = ttl and now = now
        and ks = ks] s ttl by auto
  have x: "lfuItem_isExpired item now'"
    using ttl n late by (simp add: lfuItem_isExpired_def i IsZero_def After_def)
  show ?thesis
    using LFUCache_Get_expired [OF k i(1) x, where h = h'] by simp
qed

lemma MemoryCache_expired_Get:
  assumes ttl: "0 < ttl"
    and s: "MemoryCache_SetWithTTL c h ks key v ttl now = (e, c1, h1)"
    and late: "now + ttl < now'"
  shows "\<exists>c2. MemoryCache_Get c1 h' key now' = ((nil, False), c2, h')
     \<and> mc_data c2 key = None \<and> mc_misses c2 = mc_misses c1 + 1 \<and> mc_hits c2 = mc_hits c1"
proof -
  obtain item where i: "mc_data c1 key = Some item" "ExpiresAt item = now + ttl"
    using MemoryCache_SetWithTTL_stores [where c = c and h = h and v = v and ttl = ttl
        and now = now and ks = ks and key = key] s ttl by auto
  have x: "Item_IsExpired item now'"
    using late by (simp add: Item_IsExpired_def i After_def)
  show ?thesis
    using MemoryCache_Get_expired [OF i(1) x, where h = h'] by simp
qed

text \<open>
  In \<open>SimpleCache\<close> the same \<open>Get\<close> removes the entry, but the outer \<open>exists\<close> it
  tests is still \<open>true\<close>: it counts a hit and returns a copy of the expired value.
\<close>

lemma SimpleCache_expired_Get:
  assumes k: "key \<noteq> []" and o: "\<not> sc_closed c" and ttl: "0 < ttl" and n: "0 \<le> now"
    and s: "SimpleCache_SetWithTTL c h key v ttl now = (e, c1, h1)"
    and late: "now + ttl < now'"
  shows "\<exists>c2. SimpleCache_Get c1 h1 key now' = ((brk h1, True), c2, snd (make_copy h1 (brk h)))
     \<and> sc_items c2 key = None \<and> sc_misses c2 = sc_misses c1 \<and> sc_hits c2 = sc_hits c1 + 1
     \<and> slice_bytes (snd (make_copy h1 (brk h))) (brk h1) = slice_bytes h v"
proof -
  let ?item = "\<lparr>si_value = brk h, si_expiresAt = now + ttl\<rparr>"
  have s': "c1 = c\<lparr>sc_items := (sc_items c)(key \<mapsto> ?item)\<rparr>" "h1 = snd (make_copy h v)"
    using SimpleCache_SetWithTTL_ok [OF k o, where h = h and v = v and ttl = ttl and now = now]
      s ttl by auto
  have i: "sc_items c1 key = Some ?item"
    by (simp add: s')
  have x: "simpleItem_isExpired ?item now'"
    using ttl n late by (simp add: simpleItem_isExpired_def IsZero_def After_def)
  have b: "slice_bytes (snd (make_copy h1 (brk h))) (brk h1) = slice_bytes h v"
    by (simp add: make_copy_new s')
  show ?thesis
    using SimpleCache_Get_expired [OF k i x, where h = h1] b by simp
qed

text \<open>
  C4 at a concrete input, for \<open>SimpleCache\<close>: \<open>SetWithTTL(k, v, 100)\<close> at time \<open>1000\<close>,
  then \<open>Get(k)\<close> at time \<open>1151\<close>.  The \<open>Get\<close> returns \<open>true\<close> and the bytes of \<open>v\<close>
  and counts a hit, not a miss; the entry is gone afterwards, so the next \<open>Get(k)\<close>
  misses.
\<close>

theorem SimpleCache_Get_returns_expired_value:
  "(case SimpleCache_SetWithTTL NewSimple \<lparr>cells = (\<lambda>a. None)(1 \<mapsto> [104, 105]), brk = 2\<rparr>
           ''k'' 1 100 1000 of (e, c1, h1) \<Rightarrow>
      e = None \<and>
      (case SimpleCache_Get c1 h1 ''k'' 1151 of ((r, found), c2, h2) \<Rightarrow>
         found \<and> slice_bytes h2 r = [104, 105] \<and> sc_hits c2 = 1 \<and> sc_misses c2 = 0
         \<and> sc_items c2 ''k'' = None
         \<and> (case SimpleCache_Get c2 h2 ''k'' 1200 of ((r2, found2), c3, h3) \<Rightarrow>
              \<not> found2 \<and> r2 = nil \<and> sc_misses c3 = 1)))"
  by (simp add: SimpleCache_SetWithTTL_def SimpleCache_Get_def SimpleCache_hit_def
      SimpleCache_miss_def simpleItem_isExpired_def IsZero_def After_def Add_def make_copy_def
      slice_bytes_def NewSimple_def NewSimpleWithTTL_def Let_def)

section \<open>The frequency counters\<close>

lemma LFUCache_delete_fold:
  "fc_items (fold (\<lambda>key c'. c'\<lparr>fc_items := (fc_items c')(key := None)\<rparr>) xs c)
     = (\<lambda>k. if k \<in> set xs then None else fc_items c k)"
  by (induction xs arbitrary: c) (auto simp: fun_eq_iff)

lemma LFUCache_delete_fold_fields:
  "fc_evictions (fold (\<lambda>key c'. c'\<lparr>fc_items := (fc_items c')(key := None)\<rparr>) xs c) = fc_evictions c"
  "fc_hits (fold (\<lambda>key c'. c'\<lparr>fc_items := (fc_items c')(key := None)\<rparr>) xs c) = fc_hits c"
  "fc_misses (fold (\<lambda>key c'. c'\<lparr>fc_items := (fc_items c')(key := None)\<rparr>) xs c) = fc_misses c"
  "fc_maxSize (fold (\<lambda>key c'. c'\<lparr>fc_items := (fc_items c')(key := None)\<rparr>) xs c) = fc_maxSize c"
  "fc_closed (fold (\<lambda>key c'. c'\<lparr>fc_items := (fc_items c')(key := None)\<rparr>) xs c) = fc_closed c"
  "fc_defaultTTL (fold (\<lambda>key c'. c'\<lparr>fc_items := (fc_items c')(key := None)\<rparr>) xs c) = fc_defaultTTL c"
  by (induction xs arbitrary: c) simp_all

lemma LFUCache_removeExpired_items:
  "fc_items (LFUCache_removeExpired c ks now)
     = (\<lambda>k. if k \<in> set (LFUCache_expiredKeys c ks now) then None else fc_items c k)"
  by (simp add: LFUCache_removeExpired_def Let_def LFUCache_delete_fold)

lemma LFUCache_evictLFU_items:
  "fc_items (LFUCache_evictLFU c ks) k = Some item \<Longrightarrow> fc_items c k = Some item"
  by (auto simp: LFUCache_evictLFU_def Let_def split: if_splits)

text \<open>No method of \<open>LFUCache\<close> lowers the frequency of a key that stays resident.\<close>

lemma LFUCache_frequency_mono:
  assumes "fc_items c k = Some item"
  shows "fc_items (fst (snd (LFUCache_Get c h key now))) k = Some item'
           \<Longrightarrow> fi_frequency item \<le> fi_frequency item'"
    and "fc_items (fst (snd (LFUCache_SetWithTTL c h ks key v ttl now))) k = Some item'
           \<Longrightarrow> fi_frequency item \<le> fi_frequency item'"
    and "fc_items (snd (LFUCache_Delete c key)) k = Some item'
           \<Longrightarrow> fi_frequency item \<le> fi_frequency item'"
    and "fc_items (LFUCache_removeExpired c ks now) k = Some item'
           \<Longrightarrow> fi_frequency item \<le> fi_frequency item'"
    and "fc_items (LFUCache_Close c) k = Some item'
           \<Longrightarrow> fi_frequency item \<le> fi_frequency item'"
    and "fc_items (LFUCache_Clear c) k \<noteq> Some item'"
proof -
  show "fc_items (fst (snd (LFUCache_Get c h key now))) k = Some item'
           \<Longrightarrow> fi_frequency item \<le> fi_frequency item'"
    using assms
    by (auto simp: LFUCache_Get_def Let_def split_def lfuItem_touch_def
        split: if_splits option.splits)
  show "fc_items (fst (snd (LFUCache_SetWithTTL c h ks key v ttl now))) k = Some item'
           \<Longrightarrow> fi_frequency item \<le> fi_frequency item'"
    using assms
    by (auto simp: LFUCache_SetWithTTL_def Let_def split_def
        split: if_splits option.splits dest: LFUCache_evictLFU_items)
  show "fc_items (snd (LFUCache_Delete c key)) k = Some item'
           \<Longrightarrow> fi_frequency item \<le> fi_frequency item'"
    using assms by (auto simp: LFUCache_Delete_def split: if_splits option.splits)
  show "fc_items (LFUCache_removeExpired c ks now) k = Some item'
           \<Longrightarrow> fi_frequency item \<le> fi_frequency item'"
    using assms by (auto simp: LFUCache_removeExpired_items split: if_splits)
  show "fc_items (LFUCache_Close c) k = Some item'
           \<Longrightarrow> fi_frequency item \<le> fi_frequency item'"
    using assms by (auto simp: LFUCache_Close_def split: if_splits)
  show "fc_items (LFUCache_Clear c) k \<noteq> Some item'"
    by (simp add: LFUCache_Clear_def)
qed

text \<open>
  C7, as the claim states it, fails for \<open>MemoryCache\<close>: after \<open>Set(k)\<close> and a
  successful \<open>Get(k)\<close> the counter of \<open>k\<close> is \<open>2\<close>, and a second \<open>Set(k)\<close> puts it
  back to \<open>1\<close> while \<open>k\<close> stays resident.
\<close>

theorem MemoryCache_overwrite_resets_AccessCount:
  "(case MemoryCache_Set (NewMemoryCache DefaultConfig) heap0 [] ''k'' nil 1 of (e, c1, h1) \<Rightarrow>
      (case MemoryCache_Get c1 h1 ''k'' 2 of ((r, found), c2, h2) \<Rightarrow>
         found \<and> map_option AccessCount (mc_data c2 ''k'') = Some 2
         \<and> (case MemoryCache_Set c2 h2 [''k''] ''k'' nil 3 of (e', c3, h3) \<Rightarrow>
              map_option AccessCount (mc_data c3 ''k'') = Some 1)))"
  by (simp add: MemoryCache_Set_def MemoryCache_SetWithTTL_def MemoryCache_Get_def
      MemoryCache_miss_def Item_IsExpired_def Item_Touch_def After_def Add_def make_copy_def
      NewMemoryCache_def DefaultConfig_def Let_def len_def)

text \<open>
  C7, amended.  In \<open>LFUCache\<close>: a successful \<open>Get\<close> adds one to the frequency of its
  key; a \<open>SetWithTTL\<close> of a resident key changes only \<open>value\<close>, \<open>expiresAt\<close> and
  \<open>lastAccess\<close> of its entry; and no method lowers the frequency of a key that is
  resident before and after the call.  In \<open>MemoryCache\<close>: a successful \<open>Get\<close> adds
  one to \<open>AccessCount\<close> of its key, and a \<open>SetWithTTL\<close> replaces the entry, whose
  \<open>AccessCount\<close> starts again at \<open>1\<close>.
\<close>

theorem frequency_counters:
  "(key \<noteq> [] \<and> fc_items fc key = Some fitem \<and> \<not> lfuItem_isExpired fitem now \<longrightarrow>
      snd (fst (LFUCache_Get fc h key now))
      \<and> map_option fi_frequency (fc_items (fst (snd (LFUCache_Get fc h key now))) key)
           = Some (fi_frequency fitem + 1))
   \<and> (key \<noteq> [] \<and> \<not> fc_closed fc \<and> fc_items fc key = Some fitem \<longrightarrow>
      fc_items (fst (snd (LFUCache_SetWithTTL fc h ks key v ttl now)))
        = (fc_items fc)(key \<mapsto> fitem\<lparr>fi_value := brk h,
             fi_expiresAt := (if ttl > 0 then now + ttl
                              else if fc_defaultTTL fc > 0 then now + fc_defaultTTL fc else 0),
             fi_lastAccess := now\<rparr>))
   \<and> (fc_items fc k = Some kitem \<longrightarrow>
        (\<forall>item'. fc_items (fst (snd (LFUCache_Get fc h key now))) k = Some item'
            \<longrightarrow> fi_frequency kitem \<le> fi_frequency item')
        \<and> (\<forall>item'. fc_items (fst (snd (LFUCache_SetWithTTL fc h ks key v ttl now))) k = Some item'
            \<longrightarrow> fi_frequency kitem \<le> fi_frequency item')
        \<and> (\<forall>item'. fc_items (snd (LFUCache_Delete fc key)) k = Some item'
            \<longrightarrow> fi_frequency kitem \<le> fi_frequency item')
        \<and> (\<forall>item'. fc_items (LFUCache_removeExpired fc ks now) k = Some item'
            \<longrightarrow> fi_frequency kitem \<le> fi_frequency item')
        \<and> (\<forall>item'. fc_items (LFUCache_Close fc) k = Some item'
            \<longrightarrow> fi_frequency kitem \<le> fi_frequency item'))
   \<and> (mc_data mc key = Some mitem \<and> \<not> Item_IsExpired mitem now \<longrightarrow>
      snd (fst (MemoryCache_Get mc h key now))
      \<and> map_option AccessCount (mc_data (fst (snd (MemoryCache_Get mc h key now))) key)
           = Some (AccessCount mitem + 1))
   \<and> map_option AccessCount
        (mc_data (fst (snd (MemoryCache_SetWithTTL mc h ks key v ttl now))) key) = Some 1"
proof (intro conjI impI allI)
  assume a: "key \<noteq> [] \<and> fc_items fc key = Some fitem \<and> \<not> lfuItem_isExpired fitem now"
  show "snd (fst (LFUCache_Get fc h key now))"
    using a by (simp add: LFUCache_Get_live)
  show "map_option fi_frequency (fc_items (fst (snd (LFUCache_Get fc h key now))) key)
           = Some (fi_frequency fitem + 1)"
    using a by (simp add: LFUCache_Get_live lfuItem_touch_def)
next
  assume "key \<noteq> [] \<and> \<not> fc_closed fc \<and> fc_items fc key = Some fitem"
  then show "fc_items (fst (snd (LFUCache_SetWithTTL fc h ks key v ttl now)))
        = (fc_items fc)(key \<mapsto> fitem\<lparr>fi_value := brk h,
             fi_expiresAt := (if ttl > 0 then now + ttl
                              else if fc_defaultTTL fc > 0 then now + fc_defaultTTL fc else 0),
             fi_lastAccess := now\<rparr>)"
    by (simp add: LFUCache_SetWithTTL_overwrite)
next
  assume a: "mc_data mc key = Some mitem \<and> \<not> Item_IsExpired mitem now"
  show "snd (fst (MemoryCache_Get mc h key now))"
    using a by (simp add: MemoryCache_Get_live)
  show "map_option AccessCount (mc_data (fst (snd (MemoryCache_Get mc h key now))) key)
           = Some (AccessCount mitem + 1)"
    using a by (simp add: MemoryCache_Get_live Item_Touch_def)
next
  show "map_option AccessCount
        (mc_data (fst (snd (MemoryCache_SetWithTTL mc h ks key v ttl now))) key) = Some 1"
    by (simp add: MemoryCache_SetWithTTL_eq [OF refl])
qed (auto dest: LFUCache_frequency_mono)
text \<open>
  An instance: the key \<open>k\<close> is stored at time \<open>1\<close> and read at time \<open>2\<close>; its
  counter is then \<open>2\<close> in both engines, and a \<open>SetWithTTL\<close> at time \<open>3\<close> leaves it at
  \<open>2\<close> in \<open>LFUCache\<close>.
\<close>

theorem frequency_counters_witness:
  "map_option fi_frequency
     (fc_items (fst (snd (LFUCache_Get
        (fst (snd (LFUCache_Set (NewLFU 3) heap0 [] ''k'' nil 1))) heap0 ''k'' 2))) ''k'') = Some 2
   \<and> map_option fi_frequency
     (fc_items (fst (snd (LFUCache_SetWithTTL
        (fst (snd (LFUCache_Get
          (fst (snd (LFUCache_Set (NewLFU 3) heap0 [] ''k'' nil 1))) heap0 ''k'' 2)))
        heap0 [''k''] ''k'' nil 0 3))) ''k'') = Some 2
   \<and> map_option AccessCount
     (mc_data (fst (snd (MemoryCache_Get
        (fst (snd (MemoryCache_Set (NewMemoryCache DefaultConfig) heap0 [] ''k'' nil 1)))
        heap0 ''k'' 2))) ''k'') = Some 2"
proof -
  let ?fitem = "\<lparr>fi_key = ''k'', fi_value = 1, fi_expiresAt = 0, fi_frequency = 1, fi_lastAccess = 1\<rparr>"
  let ?fc = "fst (snd (LFUCache_Set (NewLFU 3) heap0 [] ''k'' nil 1))"
  let ?fc2 = "fst (snd (LFUCache_Get ?fc heap0 ''k'' 2))"
  let ?mitem = "\<lparr>Value = 1, ExpiresAt = 300000000001, LastAccess = 1, AccessCount = 1, CreatedAt = 1\<rparr>"
  let ?mc = "fst (snd (MemoryCache_Set (NewMemoryCache DefaultConfig) heap0 [] ''k'' nil 1))"
  have f: "fc_items ?fc ''k'' = Some ?fitem" "\<not> fc_closed ?fc"
    by (simp_all add: LFUCache_Set_def LFUCache_SetWithTTL_def NewLFU_def NewLFUWithTTL_def
        heap0_def make_copy_def Let_def len_def)
  have fx: "\<not> lfuItem_isExpired ?fitem 2"
    by (simp add: lfuItem_isExpired_def IsZero_def)
  have f2: "fc_items ?fc2 ''k'' = Some (lfuItem_touch ?fitem 2)" "\<not> fc_closed ?fc2"
    using f fx by (simp_all add: LFUCache_Get_live)
  have m: "mc_data ?mc ''k'' = Some ?mitem"
    by (simp add: MemoryCache_Set_def MemoryCache_SetWithTTL_def NewMemoryCache_def
        DefaultConfig_def heap0_def make_copy_def Let_def len_def Add_def)
  have mx: "\<not> Item_IsExpired ?mitem 2"
    by (simp add: Item_IsExpired_def After_def)
  have k: "''k'' \<noteq> []"
    by simp
  show ?thesis
    using frequency_counters [where key = "''k''" and fc = ?fc and fitem = ?fitem and now = 2
        and h = heap0 and mc = ?mc and mitem = ?mitem]
      frequency_counters [where key = "''k''" and fc = ?fc2 and fitem = "lfuItem_touch ?fitem 2"
        and now = 3 and h = heap0 and ks = "[''k'']" and v = nil and ttl = 0]
      f fx f2 m mx k
    by (simp add: lfuItem_touch_def)
qed

section \<open>The sweep: removeExpired\<close>

lemma SimpleCache_delete_fold:
  "sc_items (fold (\<lambda>key c'. c'\<lparr>sc_items := (sc_items c')(key := None)\<rparr>) xs c)
     = (\<lambda>k. if k \<in> set xs then None else sc_items c k)"
  by (induction xs arbitrary: c) (auto simp: fun_eq_iff)

lemma SimpleCache_delete_fold_fields:
  "sc_hits (fold (\<lambda>key c'. c'\<lparr>sc_items := (sc_items c')(key := None)\<rparr>) xs c) = sc_hits c"
  "sc_misses (fold (\<lambda>key c'. c'\<lparr>sc_items := (sc_items c')(key := None)\<rparr>) xs c) = sc_misses c"
  "sc_closed (fold (\<lambda>key c'. c'\<lparr>sc_items := (sc_items c')(key := None)\<rparr>) xs c) = sc_closed c"
  by (induction xs arbitrary: c) simp_all

lemma SimpleCache_expiredKeys_set:
  "range_order (sc_items c) ks \<Longrightarrow>
   set (SimpleCache_expiredKeys c ks now)
     = {k. \<exists>item. sc_items c k = Some item \<and> simpleItem_isExpired item now}"
  by (auto simp: SimpleCache_expiredKeys_def range_order_def split: option.splits)

lemma LFUCache_expiredKeys_set:
  "range_order (fc_items c) ks \<Longrightarrow>
   set (LFUCache_expiredKeys c ks now)
     = {k. \<exists>item. fc_items c k = Some item \<and> lfuItem_isExpired item now}"
  by (auto simp: LFUCache_expiredKeys_def range_order_def split: option.splits)

lemma LRUCache_expiredKeys_set:
  "range_order (lc_items c) ks \<Longrightarrow>
   set (LRUCache_expiredKeys c ks now)
     = {k. \<exists>item. lc_items c k = Some item \<and> lruItem_isExpired item now}"
  by (auto simp: LRUCache_expiredKeys_def range_order_def split: option.splits)

lemma expiredKeys_length:
  "range_order (fc_items fc) ks \<Longrightarrow>
   length (LFUCache_expiredKeys fc ks now)
     = card {k. \<exists>item. fc_items fc k = Some item \<and> lfuItem_isExpired item now}"
  "range_order (lc_items lc) ks \<Longrightarrow>
   length (LRUCache_expiredKeys lc ks now)
     = card {k. \<exists>item. lc_items lc k = Some item \<and> lruItem_isExpired item now}"
proof -
  assume r: "range_order (fc_items fc) ks"
  then have "distinct (LFUCache_expiredKeys fc ks now)"
    by (simp add: LFUCache_expiredKeys_def range_order_def)
  then show "length (LFUCache_expiredKeys fc ks now)
     = card {k. \<exists>item. fc_items fc k = Some item \<and> lfuItem_isExpired item now}"
    using LFUCache_expiredKeys_set [OF r, of now] distinct_card by fastforce
next
  assume r: "range_order (lc_items lc) ks"
  then have "distinct (LRUCache_expiredKeys lc ks now)"
    by (simp add: LRUCache_expiredKeys_def range_order_def)
  then show "length (LRUCache_expiredKeys lc ks now)
     = card {k. \<exists>item. lc_items lc k = Some item \<and> lruItem_isExpired item now}"
    using LRUCache_expiredKeys_set [OF r, of now] distinct_card by fastforce
qed

lemma filter_remove1_distinct:
  "distinct ys \<Longrightarrow> filter P (remove1 x ys) = filter (\<lambda>k. k \<noteq> x \<and> P k) ys"
  by (induction ys) (auto intro: filter_cong)

text \<open>The second loop of \<open>LRUCache.removeExpired\<close>, on a list of distinct resident keys.\<close>

lemma LRUCache_remove_fold:
  assumes "\<forall>k item. lc_items c k = Some item \<longrightarrow> li_key item = k"
    and "distinct (lc_chain c)" and "distinct xs" and "set xs \<subseteq> dom (lc_items c)"
  shows "lc_items (fold (\<lambda>key c'. case lc_items c' key of
                                     Some item \<Rightarrow> LRUCache_removeItem c' item
                                   | None \<Rightarrow> c') xs c)
           = (\<lambda>k. if k \<in> set xs then None else lc_items c k)
         \<and> lc_chain (fold (\<lambda>key c'. case lc_items c' key of
                                     Some item \<Rightarrow> LRUCache_removeItem c' item
                                   | None \<Rightarrow> c') xs c)
           = filter (\<lambda>k. k \<notin> set xs) (lc_chain c)
         \<and> lc_evictions (fold (\<lambda>key c'. case lc_items c' key of
                                     Some item \<Rightarrow> LRUCache_removeItem c' item
                                   | None \<Rightarrow> c') xs c) = lc_evictions c
         \<and> lc_maxSize (fold (\<lambda>key c'. case lc_items c' key of
                                     Some item \<Rightarrow> LRUCache_removeItem c' item
                                   | None \<Rightarrow> c') xs c) = lc_maxSize c"
  using assms
proof (induction xs arbitrary: c)
  case Nil
  then show ?case by simp
next
  case (Cons x xs)
  from Cons.prems obtain item where i: "lc_items c x = Some item" and ik: "li_key item = x"
    by auto
  let ?c = "LRUCache_removeItem c item"
  have p: "\<forall>k item. lc_items ?c k = Some item \<longrightarrow> li_key item = k"
    "distinct (lc_chain ?c)" "distinct xs" "set xs \<subseteq> dom (lc_items ?c)"
    using Cons.prems by (auto simp: ik)
  have ch: "filter (\<lambda>k. k \<notin> set xs) (remove1 x (lc_chain c))
              = filter (\<lambda>k. k \<notin> set (x # xs)) (lc_chain c)"
    using Cons.prems(2) by (simp add: filter_remove1_distinct)
  show ?case
    using Cons.IH [OF p] ch by (auto simp: i ik fun_eq_iff)
qed

text \<open>The loop of \<open>MemoryCache.removeExpired\<close>, on a list of distinct keys.\<close>

lemma MemoryCache_removeExpired_fold:
  assumes "distinct ks"
  shows "fold (MemoryCache_removeExpired_step now) ks (c, n)
     = (c\<lparr>mc_data := (\<lambda>k. if k \<in> set ks
                               \<and> (\<exists>item. mc_data c k = Some item \<and> Item_IsExpired item now)
                             then None else mc_data c k)\<rparr>,
        n + int (card {k \<in> set ks. \<exists>item. mc_data c k = Some item \<and> Item_IsExpired item now}))"
  using assms
proof (induction ks arbitrary: c n)
  case Nil
  then show ?case by simp
next
  case (Cons x ks)
  let ?E = "\<lambda>c S. {k \<in> S. \<exists>item. mc_data c k = Some item \<and> Item_IsExpired item now}"
  show ?case
  proof (cases "\<exists>item. mc_data c x = Some item \<and> Item_IsExpired item now")
    case True
    then obtain item where i: "mc_data c x = Some item" "Item_IsExpired item now"
      by auto
    let ?c = "c\<lparr>mc_data := (mc_data c)(x := None)\<rparr>"
    have st: "MemoryCache_removeExpired_step now x (c, n) = (?c, n + 1)"
      by (simp add: MemoryCache_removeExpired_step_def i)
    have e1: "?E ?c (set ks) = ?E c (set ks)"
      using Cons.prems by auto
    have e2: "?E c (set (x # ks)) = insert x (?E c (set ks))"
      using i by auto
    have "x \<notin> ?E c (set ks)"
      using Cons.prems by auto
    moreover have "finite (?E c (set ks))"
      by simp
    ultimately have cd: "card (?E c (set (x # ks))) = Suc (card (?E c (set ks)))"
      unfolding e2 by (simp add: card_insert_disjoint)
    have d: "(\<lambda>k. if k \<in> set ks \<and> (\<exists>item. mc_data ?c k = Some item \<and> Item_IsExpired item now)
                   then None else mc_data ?c k)
             = (\<lambda>k. if k \<in> set (x # ks) \<and> (\<exists>item. mc_data c k = Some item \<and> Item_IsExpired item now)
                   then None else mc_data c k)"
      using i by (auto simp: fun_eq_iff)
    show ?thesis
      using Cons.IH [of ?c "n + 1"] Cons.prems
      by (simp only: fold_simps st distinct.simps e1 cd d) simp
  next
    case False
    have st: "MemoryCache_removeExpired_step now x (c, n) = (c, n)"
      using False by (auto simp: MemoryCache_removeExpired_step_def split: option.splits)
    have e2: "?E c (set (x # ks)) = ?E c (set ks)"
      using False by auto
    have d: "(\<lambda>k. if k \<in> set ks \<and> (\<exists>item. mc_data c k = Some item \<and> Item_IsExpired item now)
                   then None else mc_data c k)
             = (\<lambda>k. if k \<in> set (x # ks) \<and> (\<exists>item. mc_data c k = Some item \<and> Item_IsExpired item now)
                   then None else mc_data c k)"
      using False by (auto simp: fun_eq_iff)
    show ?thesis
      using Cons.IH [of c n] Cons.prems
      by (simp only: fold_simps st distinct.simps e2 d)
  qed
qed
lemma drop_expired_eq:
  "(\<lambda>k. if \<exists>item. m k = Some item \<and> P item then None else m k)
     = (\<lambda>k. case m k of None \<Rightarrow> None | Some item \<Rightarrow> if P item then None else Some item)"
  by (auto simp: fun_eq_iff split: option.splits)

lemma SimpleCache_removeExpired_sweep:
  assumes "range_order (sc_items c) ks"
  shows "sc_items (SimpleCache_removeExpired c ks now)
           = (\<lambda>k. case sc_items c k of None \<Rightarrow> None
                   | Some item \<Rightarrow> if simpleItem_isExpired item now then None else Some item)"
    and "sc_hits (SimpleCache_removeExpired c ks now) = sc_hits c"
    and "sc_misses (SimpleCache_removeExpired c ks now) = sc_misses c"
  using SimpleCache_expiredKeys_set [OF assms, of now]
  by (simp_all add: SimpleCache_removeExpired_def SimpleCache_delete_fold
      SimpleCache_delete_fold_fields drop_expired_eq)

lemma LFUCache_removeExpired_sweep:
  assumes "range_order (fc_items c) ks"
  shows "fc_items (LFUCache_removeExpired c ks now)
           = (\<lambda>k. case fc_items c k of None \<Rightarrow> None
                   | Some item \<Rightarrow> if lfuItem_isExpired item now then None else Some item)"
    and "fc_evictions (LFUCache_removeExpired c ks now)
           = fc_evictions c
             + int (card {k. \<exists>item. fc_items c k = Some item \<and> lfuItem_isExpired item now})"
proof -
  show "fc_items (LFUCache_removeExpired c ks now)
           = (\<lambda>k. case fc_items c k of None \<Rightarrow> None
                   | Some item \<Rightarrow> if lfuItem_isExpired item now then None else Some item)"
    using LFUCache_expiredKeys_set [OF assms, of now]
    by (simp add: LFUCache_removeExpired_items drop_expired_eq)
  show "fc_evictions (LFUCache_removeExpired c ks now)
           = fc_evictions c
             + int (card {k. \<exists>item. fc_items c k = Some item \<and> lfuItem_isExpired item now})"
    using expiredKeys_length(1) [OF assms, of now]
    by (cases "LFUCache_expiredKeys c ks now")
       (simp_all add: LFUCache_removeExpired_def Let_def LFUCache_delete_fold_fields)
qed

lemma LRUCache_removeExpired_sweep:
  assumes w: "LRUCache_wf c" and r: "range_order (lc_items c) ks"
  shows "lc_items (LRUCache_removeExpired c ks now)
           = (\<lambda>k. case lc_items c k of None \<Rightarrow> None
                   | Some item \<Rightarrow> if lruItem_isExpired item now then None else Some item)"
    and "lc_chain (LRUCache_removeExpired c ks now)
           = filter (\<lambda>k. \<not> (\<exists>item. lc_items c k = Some item \<and> lruItem_isExpired item now))
               (lc_chain c)"
    and "lc_evictions (LRUCache_removeExpired c ks now)
           = lc_evictions c
             + int (card {k. \<exists>item. lc_items c k = Some item \<and> lruItem_isExpired item now})"
    and "lc_maxSize (LRUCache_removeExpired c ks now) = lc_maxSize c"
proof -
  let ?xs = "LRUCache_expiredKeys c ks now"
  let ?f = "\<lambda>key c'. case lc_items c' key of Some item \<Rightarrow> LRUCache_removeItem c' item | None \<Rightarrow> c'"
  have s: "set ?xs = {k. \<exists>item. lc_items c k = Some item \<and> lruItem_isExpired item now}"
    by (rule LRUCache_expiredKeys_set [OF r])
  have d: "distinct ?xs" "set ?xs \<subseteq> dom (lc_items c)"
    using r by (auto simp: LRUCache_expiredKeys_def range_order_def)
  have f: "lc_items (fold ?f ?xs c) = (\<lambda>k. if k \<in> set ?xs then None else lc_items c k)"
    "lc_chain (fold ?f ?xs c) = filter (\<lambda>k. k \<notin> set ?xs) (lc_chain c)"
    "lc_evictions (fold ?f ?xs c) = lc_evictions c"
    "lc_maxSize (fold ?f ?xs c) = lc_maxSize c"
    using LRUCache_remove_fold [OF _ _ d] w by (simp_all add: LRUCache_wf_def)
  show "lc_items (LRUCache_removeExpired c ks now)
           = (\<lambda>k. case lc_items c k of None \<Rightarrow> None
                   | Some item \<Rightarrow> if lruItem_isExpired item now then None else Some item)"
  proof -
    have "lc_items (LRUCache_removeExpired c ks now) = lc_items (fold ?f ?xs c)"
      by (simp add: LRUCache_removeExpired_def Let_def)
    then show ?thesis
      by (simp add: f(1) s drop_expired_eq)
  qed
  show "lc_chain (LRUCache_removeExpired c ks now)
           = filter (\<lambda>k. \<not> (\<exists>item. lc_items c k = Some item \<and> lruItem_isExpired item now))
               (lc_chain c)"
  proof -
    have "lc_chain (LRUCache_removeExpired c ks now) = lc_chain (fold ?f ?xs c)"
      by (simp add: LRUCache_removeExpired_def Let_def)
    then show ?thesis
      by (simp add: f(2) s)
  qed
  show "lc_evictions (LRUCache_removeExpired c ks now)
           = lc_evictions c
             + int (card {k. \<exists>item. lc_items c k = Some item \<and> lruItem_isExpired item now})"
  proof -
    have "lc_evictions (LRUCache_removeExpired c ks now)
            = lc_evictions (fold ?f ?xs c) + int (length ?xs)"
      by (simp add: LRUCache_removeExpired_def Let_def)
    then show ?thesis
      using expiredKeys_length(2) [OF r, of now] by (simp add: f(3))
  qed
  show "lc_maxSize (LRUCache_removeExpired c ks now) = lc_maxSize c"
  proof -
    have "lc_maxSize (LRUCache_removeExpired c ks now) = lc_maxSize (fold ?f ?xs c)"
      by (simp add: LRUCache_removeExpired_def Let_def)
    then show ?thesis
      by (simp add: f(4))
  qed
qed

lemma MemoryCache_removeExpired_sweep:
  assumes r: "range_order (mc_data c) ks"
  shows "mc_data (MemoryCache_removeExpired c ks now)
           = (\<lambda>k. case mc_data c k of None \<Rightarrow> None
                   | Some item \<Rightarrow> if Item_IsExpired item now then None else Some item)"
    and "mc_evictions (MemoryCache_removeExpired c ks now)
           = mc_evictions c
             + int (card {k. \<exists>item. mc_data c k = Some item \<and> Item_IsExpired item now})"
proof -
  have d: "distinct ks"
    using r by (simp add: range_order_def)
  have e: "{k \<in> set ks. \<exists>item. mc_data c k = Some item \<and> Item_IsExpired item now}
             = {k. \<exists>item. mc_data c k = Some item \<and> Item_IsExpired item now}"
    using r by (auto simp: range_order_def)
  have m: "(\<lambda>k. if k \<in> set ks \<and> (\<exists>item. mc_data c k = Some item \<and> Item_IsExpired item now)
                 then None else mc_data c k)
           = (\<lambda>k. case mc_data c k of None \<Rightarrow> None
                   | Some item \<Rightarrow> if Item_IsExpired item now then None else Some item)"
    using r by (auto simp: fun_eq_iff range_order_def split: option.splits)
  show "mc_data (MemoryCache_removeExpired c ks now)
           = (\<lambda>k. case mc_data c k of None \<Rightarrow> None
                   | Some item \<Rightarrow> if Item_IsExpired item now then None else Some item)"
    by (simp add: MemoryCache_removeExpired_def MemoryCache_removeExpired_fold [OF d] e m)
  show "mc_evictions (MemoryCache_removeExpired c ks now)
           = mc_evictions c
             + int (card {k. \<exists>item. mc_data c k = Some item \<and> Item_IsExpired item now})"
    by (simp add: MemoryCache_removeExpired_def MemoryCache_removeExpired_fold [OF d] e)
qed

text \<open>
  C9, as the claim states it, fails for \<open>SimpleCache\<close>, which sweeps when it has a
  default TTL: the pass deletes the expired entry, and the evictions figure of
  \<open>Stats()\<close> is \<open>0\<close> before and after.
\<close>

theorem SimpleCache_sweep_counts_nothing:
  "(case SimpleCache_Set (NewSimpleWithTTL 100) heap0 ''k'' nil 1000 of (e, c1, h1) \<Rightarrow>
      sc_items c1 ''k'' \<noteq> None
      \<and> sc_items (SimpleCache_removeExpired c1 [''k''] 2000) ''k'' = None
      \<and> Evictions (SimpleCache_Stats c1) = 0
      \<and> Evictions (SimpleCache_Stats (SimpleCache_removeExpired c1 [''k''] 2000)) \<noteq> 0 + 1)"
  by (simp add: SimpleCache_Set_def SimpleCache_SetWithTTL_def NewSimpleWithTTL_def
      SimpleCache_removeExpired_def SimpleCache_expiredKeys_def simpleItem_isExpired_def
      SimpleCache_Stats_def CalculateHitRate_counters IsZero_def After_def Add_def
      make_copy_def heap0_def Let_def)

text \<open>
  C9, amended.  For a cache whose map yields its keys in the order \<open>ks\<close>, one pass of
  \<open>removeExpired\<close> at time \<open>now\<close> leaves exactly the entries that are not expired at
  \<open>now\<close>, unchanged.  In \<open>LRUCache\<close> (well formed), \<open>LFUCache\<close> and \<open>MemoryCache\<close> it
  adds the number of entries deleted to \<open>evictions\<close>; in \<open>LRUCache\<close> the deleted
  nodes leave the chain.  \<open>SimpleCache\<close> has no evictions counter: its \<open>Stats()\<close>
  reports \<open>0\<close> evictions.
\<close>

theorem sweep_pass_removes_expired:
  "(range_order (sc_items sc) sks \<longrightarrow>
      sc_items (SimpleCache_removeExpired sc sks now)
        = (\<lambda>k. case sc_items sc k of None \<Rightarrow> None
                | Some item \<Rightarrow> if simpleItem_isExpired item now then None else Some item)
      \<and> Evictions (SimpleCache_Stats (SimpleCache_removeExpired sc sks now)) = 0)
   \<and> (LRUCache_wf lc \<and> range_order (lc_items lc) lks \<longrightarrow>
      lc_items (LRUCache_removeExpired lc lks now)
        = (\<lambda>k. case lc_items lc k of None \<Rightarrow> None
                | Some item \<Rightarrow> if lruItem_isExpired item now then None else Some item)
      \<and> lc_chain (LRUCache_removeExpired lc lks now)
        = filter (\<lambda>k. \<not> (\<exists>item. lc_items lc k = Some item \<and> lruItem_isExpired item now))
            (lc_chain lc)
      \<and> lc_evictions (LRUCache_removeExpired lc lks now)
        = lc_evictions lc
          + int (card {k. \<exists>item. lc_items lc k = Some item \<and> lruItem_isExpired item now}))
   \<and> (range_order (fc_items fc) fks \<longrightarrow>
      fc_items (LFUCache_removeExpired fc fks now)
        = (\<lambda>k. case fc_items fc k of None \<Rightarrow> None
                | Some item \<Rightarrow> if lfuItem_isExpired item now then None else Some item)
      \<and> fc_evictions (LFUCache_removeExpired fc fks now)
        = fc_evictions fc
          + int (card {k. \<exists>item. fc_items fc k = Some item \<and> lfuItem_isExpired item now}))
   \<and> (range_order (mc_data mc) mks \<longrightarrow>
      mc_data (MemoryCache_removeExpired mc mks now)
        = (\<lambda>k. case mc_data mc k of None \<Rightarrow> None
                | Some item \<Rightarrow> if Item_IsExpired item now then None else Some item)
      \<and> mc_evictions (MemoryCache_removeExpired mc mks now)
        = mc_evictions mc
          + int (card {k. \<exists>item. mc_data mc k = Some item \<and> Item_IsExpired item now}))"
  by (simp add: SimpleCache_removeExpired_sweep(1) LRUCache_removeExpired_sweep(1,2,3)
      LFUCache_removeExpired_sweep MemoryCache_removeExpired_sweep
      SimpleCache_Stats_def CalculateHitRate_counters)
text \<open>
  An instance: the key \<open>k\<close> is stored at time \<open>1000\<close> with a TTL of \<open>100\<close> and the
  sweep runs at time \<open>2000\<close>; the entry is deleted and counted once.
\<close>

theorem sweep_pass_removes_expired_witness:
  "sc_items (SimpleCache_removeExpired
      (fst (snd (SimpleCache_SetWithTTL (NewSimpleWithTTL 100) heap0 ''k'' nil 100 1000)))
      [''k''] 2000) ''k'' = None
   \<and> lc_items (LRUCache_removeExpired
      (fst (snd (LRUCache_SetWithTTL (NewLRU 3) heap0 ''k'' nil 100 1000))) [''k''] 2000) ''k'' = None
   \<and> lc_evictions (LRUCache_removeExpired
      (fst (snd (LRUCache_SetWithTTL (NewLRU 3) heap0 ''k'' nil 100 1000))) [''k''] 2000) = 1
   \<and> lc_chain (LRUCache_removeExpired
      (fst (snd (LRUCache_SetWithTTL (NewLRU 3) heap0 ''k'' nil 100 1000))) [''k''] 2000) = []
   \<and> fc_items (LFUCache_removeExpired
      (fst (snd (LFUCache_SetWithTTL (NewLFU 3) heap0 [] ''k'' nil 100 1000))) [''k''] 2000) ''k'' = None
   \<and> fc_evictions (LFUCache_removeExpired
      (fst (snd (LFUCache_SetWithTTL (NewLFU 3) heap0 [] ''k'' nil 100 1000))) [''k''] 2000) = 1
   \<and> mc_data (MemoryCache_removeExpired
      (fst (snd (MemoryCache_SetWithTTL (NewMemoryCache DefaultConfig) heap0 [] ''k'' nil 100 1000)))
      [''k''] 2000) ''k'' = None
   \<and> mc_evictions (MemoryCache_removeExpired
      (fst (snd (MemoryCache_SetWithTTL (NewMemoryCache DefaultConfig) heap0 [] ''k'' nil 100 1000)))
      [''k''] 2000) = 1"
proof -
  let ?sc = "fst (snd (SimpleCache_SetWithTTL (NewSimpleWithTTL 100) heap0 ''k'' nil 100 1000))"
  let ?lc = "fst (snd (LRUCache_SetWithTTL (NewLRU 3) heap0 ''k'' nil 100 1000))"
  let ?fc = "fst (snd (LFUCache_SetWithTTL (NewLFU 3) heap0 [] ''k'' nil 100 1000))"
  let ?mc = "fst (snd (MemoryCache_SetWithTTL (NewMemoryCache DefaultConfig) heap0 [] ''k'' nil 100 1000))"
  have s: "sc_items ?sc = [''k'' \<mapsto> \<lparr>si_value = 1, si_expiresAt = 1100\<rparr>]"
    by (simp add: SimpleCache_SetWithTTL_def NewSimpleWithTTL_def heap0_def make_copy_def
        Let_def Add_def)
  have l: "lc_items ?lc = [''k'' \<mapsto> \<lparr>li_key = ''k'', li_value = 1, li_expiresAt = 1100\<rparr>]"
    "lc_chain ?lc = [''k'']" "lc_maxSize ?lc = 3" "lc_evictions ?lc = 0"
    by (simp_all add: LRUCache_SetWithTTL_def NewLRU_def NewLRUWithTTL_def heap0_def
        make_copy_def Let_def Add_def len_def LRUCache_addToHead_def)
  have f: "fc_items ?fc = [''k'' \<mapsto> \<lparr>fi_key = ''k'', fi_value = 1, fi_expiresAt = 1100,
              fi_frequency = 1, fi_lastAccess = 1000\<rparr>]" "fc_evictions ?fc = 0"
    by (simp_all add: LFUCache_SetWithTTL_def NewLFU_def NewLFUWithTTL_def heap0_def
        make_copy_def Let_def Add_def len_def)
  have m: "mc_data ?mc = [''k'' \<mapsto> \<lparr>Value = 1, ExpiresAt = 1100, LastAccess = 1000,
              AccessCount = 1, CreatedAt = 1000\<rparr>]" "mc_evictions ?mc = 0"
    by (simp_all add: MemoryCache_SetWithTTL_def NewMemoryCache_def DefaultConfig_def heap0_def
        make_copy_def Let_def Add_def len_def)
  have r: "range_order (sc_items ?sc) [''k'']" "range_order (lc_items ?lc) [''k'']"
    "range_order (fc_items ?fc) [''k'']" "range_order (mc_data ?mc) [''k'']"
    by (simp_all add: s l f m range_order_def)
  have w: "LRUCache_wf ?lc"
    by (simp add: LRUCache_wf_def l)
  have e: "{k. \<exists>item. lc_items ?lc k = Some item \<and> lruItem_isExpired item 2000} = {''k''}"
    "{k. \<exists>item. fc_items ?fc k = Some item \<and> lfuItem_isExpired item 2000} = {''k''}"
    "{k. \<exists>item. mc_data ?mc k = Some item \<and> Item_IsExpired item 2000} = {''k''}"
    by (auto simp: l f m lruItem_isExpired_def lfuItem_isExpired_def Item_IsExpired_def
        IsZero_def After_def split: if_splits)
  show ?thesis
    using sweep_pass_removes_expired [where sc = ?sc and lc = ?lc and fc = ?fc and mc = ?mc
        and sks = "[''k'']" and lks = "[''k'']" and fks = "[''k'']" and mks = "[''k'']"
        and now = 2000] r w
    by (simp add: e) (simp add: s l f m simpleItem_isExpired_def lruItem_isExpired_def
        lfuItem_isExpired_def Item_IsExpired_def IsZero_def After_def)
qed

section \<open>The victim of an eviction\<close>

subsection \<open>LFUCache.evictLFU\<close>



subsection \<open>The eviction loops of MemoryCache\<close>

text \<open>
  The loops of \<open>evictLRU\<close> and \<open>evictFIFO\<close> differ only in the time stamp \<open>g\<close> they
  compare.  After such a loop has seen the keys \<open>ks\<close>: either none of them is resident
  and the loop state is the initial one, or the key it holds is a resident key among
  them with the least time stamp.
\<close>

lemma oldest_scan_min:
  assumes stp: "\<And>key st. stp key st =
     (case st of (oldestKey, oldestTime, first) \<Rightarrow>
        (case m key of
           None \<Rightarrow> st
         | Some item \<Rightarrow>
             if first \<or> Before (g item) oldestTime then (key, g item, False) else st))"
  shows "(fold stp ks ([], 0, True) = ([], 0, True) \<and> (\<forall>k \<in> set ks. m k = None))
    \<or> (\<exists>ek eitem. fold stp ks ([], 0, True) = (ek, g eitem, False)
          \<and> ek \<in> set ks \<and> m ek = Some eitem
          \<and> (\<forall>k \<in> set ks. \<forall>item. m k = Some item \<longrightarrow> g eitem \<le> (g item :: time)))"
proof (induction ks rule: rev_induct)
  case Nil
  then show ?case by simp
next
  case (snoc x xs)
  show ?case
  proof (cases "m x")
    case None
    then have "fold stp (xs @ [x]) ([], 0, True) = fold stp xs ([], 0, True)"
      by (simp add: stp split: prod.splits)
    then show ?thesis
      using snoc None by auto
  next
    case (Some xitem)
    from snoc show ?thesis
    proof (elim disjE conjE exE)
      assume "fold stp xs ([], 0, True) = ([], 0, True)" and n: "\<forall>k \<in> set xs. m k = None"
      then have "fold stp (xs @ [x]) ([], 0, True) = (x, g xitem, False)"
        by (simp add: stp Some)
      then show ?thesis
        using Some n by auto
    next
      fix ek eitem
      assume s: "fold stp xs ([], 0, True) = (ek, g eitem, False)"
        and ek: "ek \<in> set xs" "m ek = Some eitem"
        and mn: "\<forall>k \<in> set xs. \<forall>item. m k = Some item \<longrightarrow> g eitem \<le> g item"
      show ?thesis
      proof (cases "g xitem < g eitem")
        case True
        then have "fold stp (xs @ [x]) ([], 0, True) = (x, g xitem, False)"
          by (simp add: stp s Some Before_def)
        moreover have "\<forall>k \<in> set (xs @ [x]). \<forall>item. m k = Some item \<longrightarrow> g xitem \<le> g item"
          using True mn Some by fastforce
        ultimately show ?thesis
          using Some by auto
      next
        case False
        then have "fold stp (xs @ [x]) ([], 0, True) = (ek, g eitem, False)"
          by (simp add: stp s Some Before_def)
        moreover have "\<forall>k \<in> set (xs @ [x]). \<forall>item. m k = Some item \<longrightarrow> g eitem \<le> g item"
          using False mn Some by fastforce
        ultimately show ?thesis
          using ek by auto
      qed
    qed
  qed
qed

lemma MemoryCache_evictLFU_scan_min:
  assumes f: "\<forall>k item. mc_data c k = Some item \<longrightarrow> 1 \<le> AccessCount item"
  shows "(fold (MemoryCache_evictLFU_step c) ks ([], - 1) = ([], - 1)
            \<and> (\<forall>k \<in> set ks. mc_data c k = None))
    \<or> (\<exists>ek eitem. fold (MemoryCache_evictLFU_step c) ks ([], - 1) = (ek, AccessCount eitem)
          \<and> ek \<in> set ks \<and> mc_data c ek = Some eitem
          \<and> (\<forall>k \<in> set ks. \<forall>item. mc_data c k = Some item
                \<longrightarrow> AccessCount eitem \<le> AccessCount item))"
proof (induction ks rule: rev_induct)
  case Nil
  then show ?case by simp
next
  case (snoc x xs)
  show ?case
  proof (cases "mc_data c x")
    case None
    then have "fold (MemoryCache_evictLFU_step c) (xs @ [x]) ([], - 1)
                 = fold (MemoryCache_evictLFU_step c) xs ([], - 1)"
      by (simp add: MemoryCache_evictLFU_step_def split: prod.splits)
    then show ?thesis
      using snoc None by auto
  next
    case (Some xitem)
    from snoc show ?thesis
    proof (elim disjE conjE exE)
      assume "fold (MemoryCache_evictLFU_step c) xs ([], - 1) = ([], - 1)"
        and n: "\<forall>k \<in> set xs. mc_data c k = None"
      then have "fold (MemoryCache_evictLFU_step c) (xs @ [x]) ([], - 1) = (x, AccessCount xitem)"
        by (simp add: MemoryCache_evictLFU_step_def Some)
      then show ?thesis
        using Some n by auto
    next
      fix ek eitem
      assume s: "fold (MemoryCache_evictLFU_step c) xs ([], - 1) = (ek, AccessCount eitem)"
        and ek: "ek \<in> set xs" "mc_data c ek = Some eitem"
        and mn: "\<forall>k \<in> set xs. \<forall>item. mc_data c k = Some item
                   \<longrightarrow> AccessCount eitem \<le> AccessCount item"
      have ef: "AccessCount eitem \<noteq> - 1"
        using f ek by fastforce
      show ?thesis
      proof (cases "AccessCount xitem < AccessCount eitem")
        case True
        then have "fold (MemoryCache_evictLFU_step c) (xs @ [x]) ([], - 1) = (x, AccessCount xitem)"
          by (simp add: MemoryCache_evictLFU_step_def s Some)
        moreover have "\<forall>k \<in> set (xs @ [x]). \<forall>item. mc_data c k = Some item
                   \<longrightarrow> AccessCount xitem \<le> AccessCount item"
          using True mn Some by fastforce
        ultimately show ?thesis
          using Some by auto
      next
        case False
        then have "fold (MemoryCache_evictLFU_step c) (xs @ [x]) ([], - 1) = (ek, AccessCount eitem)"
          using ef by (simp add: MemoryCache_evictLFU_step_def s Some)
        moreover have "\<forall>k \<in> set (xs @ [x]). \<forall>item. mc_data c k = Some item
                   \<longrightarrow> AccessCount eitem \<le> AccessCount item"
          using False mn Some by fastforce
        ultimately show ?thesis
          using ek by auto
      qed
    qed
  qed
qed

text \<open>
  On a well-formed, non-empty \<open>MemoryCache\<close> that does not hold the empty key,
  \<open>evict\<close> removes exactly one entry and counts one eviction.  The entry removed has
  the least \<open>AccessCount\<close> under the policy \<open>LFU\<close>, the least \<open>CreatedAt\<close> under
  \<open>FIFO\<close>, and the least \<open>LastAccess\<close> under \<open>LRU\<close> and any other policy value.
\<close>

lemma MemoryCache_evict_victim:
  assumes w: "MemoryCache_wf c" and r: "range_order (mc_data c) ks"
    and ne: "mc_data c k0 \<noteq> None" and nk: "[] \<notin> dom (mc_data c)"
  shows "\<exists>victim vitem. mc_data c victim = Some vitem
     \<and> MemoryCache_evict c ks
         = c\<lparr>mc_data := (mc_data c)(victim := None), mc_evictions := mc_evictions c + 1\<rparr>
     \<and> (\<forall>k item. mc_data c k = Some item \<longrightarrow>
           (if EvictionPolicy (mc_config c) = LFU then AccessCount vitem \<le> AccessCount item
            else if EvictionPolicy (mc_config c) = FIFO then CreatedAt vitem \<le> CreatedAt item
            else LastAccess vitem \<le> LastAccess item))"
proof -
  have f: "\<forall>k item. mc_data c k = Some item \<longrightarrow> 1 \<le> AccessCount item"
    and fin: "finite (dom (mc_data c))"
    using w by (simp_all add: MemoryCache_wf_def)
  have l: "len (mc_data c) \<noteq> 0"
    using ne fin by (auto simp: len_def)
  have ns: "\<not> (\<forall>k \<in> set ks. mc_data c k = None)"
    using r ne by (auto simp: range_order_def)
  have all: "\<And>P. (\<forall>k \<in> set ks. \<forall>item. mc_data c k = Some item \<longrightarrow> P item)
                \<Longrightarrow> (\<forall>k item. mc_data c k = Some item \<longrightarrow> P item)"
    using r by (auto simp: range_order_def)
  have nonempty: "\<And>ek. ek \<in> set ks \<Longrightarrow> ek \<noteq> []"
    using r nk by (auto simp: range_order_def)
  consider (lfu) "EvictionPolicy (mc_config c) = LFU"
    | (fifo) "EvictionPolicy (mc_config c) \<noteq> LFU" "EvictionPolicy (mc_config c) = FIFO"
    | (lru) "EvictionPolicy (mc_config c) \<noteq> LFU" "EvictionPolicy (mc_config c) \<noteq> FIFO"
    by blast
  then show ?thesis
  proof cases
    case lfu
    from MemoryCache_evictLFU_scan_min [OF f, of ks] ns
    have "\<exists>ek eitem. fold (MemoryCache_evictLFU_step c) ks ([], - 1) = (ek, AccessCount eitem)
          \<and> ek \<in> set ks \<and> mc_data c ek = Some eitem
          \<and> (\<forall>k \<in> set ks. \<forall>item. mc_data c k = Some item
                \<longrightarrow> AccessCount eitem \<le> AccessCount item)"
      by (elim disjE) simp_all
    then obtain ek eitem
      where s: "fold (MemoryCache_evictLFU_step c) ks ([], - 1) = (ek, AccessCount eitem)"
        and ek: "ek \<in> set ks" "mc_data c ek = Some eitem"
        and mn: "\<forall>k \<in> set ks. \<forall>item. mc_data c k = Some item
                \<longrightarrow> AccessCount eitem \<le> AccessCount item"
      by (elim exE conjE)
    have "MemoryCache_evict c ks
         = c\<lparr>mc_data := (mc_data c)(ek := None), mc_evictions := mc_evictions c + 1\<rparr>"
      using l lfu nonempty [OF ek(1)]
      by (simp add: MemoryCache_evict_def MemoryCache_evictLFU_def s LRU_def LFU_def)
    then show ?thesis
      using ek all [OF mn] lfu by auto
  next
    case fifo
    have "\<And>key st. MemoryCache_evictFIFO_step c key st =
       (case st of (oldestKey, oldestTime, first) \<Rightarrow>
          (case mc_data c key of
             None \<Rightarrow> st
           | Some item \<Rightarrow>
               if first \<or> Before (CreatedAt item) oldestTime then (key, CreatedAt item, False)
               else st))"
      by (simp add: MemoryCache_evictFIFO_step_def)
    from oldest_scan_min [where stp = "MemoryCache_evictFIFO_step c" and m = "mc_data c"
        and g = CreatedAt and ks = ks, OF this] ns
    have "\<exists>ek eitem. fold (MemoryCache_evictFIFO_step c) ks ([], 0, True) = (ek, CreatedAt eitem, False)
          \<and> ek \<in> set ks \<and> mc_data c ek = Some eitem
          \<and> (\<forall>k \<in> set ks. \<forall>item. mc_data c k = Some item \<longrightarrow> CreatedAt eitem \<le> CreatedAt item)"
      by (elim disjE) simp_all
    then obtain ek eitem
      where s: "fold (MemoryCache_evictFIFO_step c) ks ([], 0, True) = (ek, CreatedAt eitem, False)"
        and ek: "ek \<in> set ks" "mc_data c ek = Some eitem"
        and mn: "\<forall>k \<in> set ks. \<forall>item. mc_data c k = Some item \<longrightarrow> CreatedAt eitem \<le> CreatedAt item"
      by (elim exE conjE)
    have "MemoryCache_evict c ks
         = c\<lparr>mc_data := (mc_data c)(ek := None), mc_evictions := mc_evictions c + 1\<rparr>"
      using l fifo nonempty [OF ek(1)]
      by (simp add: MemoryCache_evict_def MemoryCache_evictFIFO_def s LRU_def LFU_def FIFO_def)
    then show ?thesis
      using ek all [OF mn] fifo by auto
  next
    case lru
    have "\<And>key st. MemoryCache_evictLRU_step c key st =
       (case st of (oldestKey, oldestTime, first) \<Rightarrow>
          (case mc_data c key of
             None \<Rightarrow> st
           | Some item \<Rightarrow>
               if first \<or> Before (LastAccess item) oldestTime then (key, LastAccess item, False)
               else st))"
      by (simp add: MemoryCache_evictLRU_step_def)
    from oldest_scan_min [where stp = "MemoryCache_evictLRU_step c" and m = "mc_data c"
        and g = LastAccess and ks = ks, OF this] ns
    have "\<exists>ek eitem. fold (MemoryCache_evictLRU_step c) ks ([], 0, True) = (ek, LastAccess eitem, False)
          \<and> ek \<in> set ks \<and> mc_data c ek = Some eitem
          \<and> (\<forall>k \<in> set ks. \<forall>item. mc_data c k = Some item \<longrightarrow> LastAccess eitem \<le> LastAccess item)"
      by (elim disjE) simp_all
    then obtain ek eitem
      where s: "fold (MemoryCache_evictLRU_step c) ks ([], 0, True) = (ek, LastAccess eitem, False)"
        and ek: "ek \<in> set ks" "mc_data c ek = Some eitem"
        and mn: "\<forall>k \<in> set ks. \<forall>item. mc_data c k = Some item \<longrightarrow> LastAccess eitem \<le> LastAccess item"
      by (elim exE conjE)
    have "MemoryCache_evict c ks
         = c\<lparr>mc_data := (mc_data c)(ek := None), mc_evictions := mc_evictions c + 1\<rparr>"
      using l lru nonempty [OF ek(1)]
      by (simp add: MemoryCache_evict_def MemoryCache_evictLRU_def s)
    then show ?thesis
      using ek all [OF mn] lru by auto
  qed
qed
subsection \<open>The victim of a SetWithTTL into a full cache\<close>

lemma len_pos_resident:
  "0 < len m \<Longrightarrow> \<exists>k0. m k0 \<noteq> None"
  by (auto simp: len_def card_gt_0_iff)





section \<open>Well-formed caches\<close>

lemma len_update_new: "finite (dom m) \<Longrightarrow> m k = None \<Longrightarrow> len (m(k \<mapsto> x)) = len m + 1"
  by (simp add: len_def domIff)

lemma len_update_old: "m k = Some y \<Longrightarrow> len (m(k \<mapsto> x)) = len m"
  by (simp add: len_def insert_absorb domI)

lemma len_delete: "finite (dom m) \<Longrightarrow> m k = Some y \<Longrightarrow> len (m(k := None)) = len m - 1"
proof -
  assume f: "finite (dom m)" and k: "m k = Some y"
  then have "k \<in> dom m" and "0 < card (dom m)"
    by (auto simp: card_gt_0_iff)
  then show ?thesis
    using f by (simp add: len_def of_nat_diff Suc_leI)
qed

subsection \<open>LRUCache\<close>


lemma LRUCache_wf_counters:
  "LRUCache_wf (c\<lparr>lc_hits := x\<rparr>) = LRUCache_wf c"
  "LRUCache_wf (c\<lparr>lc_misses := x\<rparr>) = LRUCache_wf c"
  "LRUCache_wf (c\<lparr>lc_evictions := x\<rparr>) = LRUCache_wf c"
  "LRUCache_wf (c\<lparr>lc_closed := b\<rparr>) = LRUCache_wf c"
  by (simp_all add: LRUCache_wf_def)

lemma LRUCache_wf_removeItem:
  assumes "LRUCache_wf c" "lc_items c k = Some item"
  shows "LRUCache_wf (LRUCache_removeItem c item)"
    and "lc_items (LRUCache_removeItem c item) = (lc_items c)(k := None)"
proof -
  have ik: "li_key item = k"
    using assms by (simp add: LRUCache_wf_def)
  show "lc_items (LRUCache_removeItem c item) = (lc_items c)(k := None)"
    by (simp add: ik)
  show "LRUCache_wf (LRUCache_removeItem c item)"
    using assms by (auto simp: LRUCache_wf_def ik split: if_splits)
qed

lemma LRUCache_wf_moveToHead:
  assumes "LRUCache_wf c" "lc_items c k = Some item"
  shows "LRUCache_wf (LRUCache_moveToHead c item)"
proof -
  have ik: "li_key item = k"
    using assms by (simp add: LRUCache_wf_def)
  have "k \<in> set (lc_chain c)"
    using assms by (auto simp: LRUCache_wf_def)
  then show ?thesis
    using assms by (auto simp: LRUCache_wf_def ik)
qed



lemma LRUCache_wf_Get:
  assumes w: "LRUCache_wf c"
  shows "LRUCache_wf (fst (snd (LRUCache_Get c h key now)))"
proof (cases "lc_items c key")
  case None
  then show ?thesis
    using w by (simp add: LRUCache_Get_absent LRUCache_wf_counters)
next
  case (Some item)
  then have k: "key \<noteq> []"
    using w by (auto simp: LRUCache_wf_def)
  show ?thesis
  proof (cases "lruItem_isExpired item now")
    case True
    then show ?thesis
      using LRUCache_wf_removeItem(1) [OF w Some]
      by (simp add: LRUCache_Get_expired [OF k Some] LRUCache_wf_counters)
  next
    case False
    then show ?thesis
      using LRUCache_wf_moveToHead [OF w Some]
      by (simp add: LRUCache_Get_live [OF k Some] LRUCache_wf_counters)
  qed
qed



lemma LRUCache_wf_Delete:
  assumes w: "LRUCache_wf c"
  shows "LRUCache_wf (snd (LRUCache_Delete c key))"
  using w LRUCache_wf_removeItem(1) [OF w]
  by (auto simp: LRUCache_Delete_def split: option.splits)

lemma LRUCache_wf_Clear: "LRUCache_wf c \<Longrightarrow> LRUCache_wf (LRUCache_Clear c)"
  by (simp add: LRUCache_wf_def LRUCache_Clear_def)

lemma LRUCache_wf_Close: "LRUCache_wf c \<Longrightarrow> LRUCache_wf (LRUCache_Close c)"
  by (simp add: LRUCache_Close_def LRUCache_wf_counters)

lemma LRUCache_wf_removeExpired:
  assumes w: "LRUCache_wf c" and r: "range_order (lc_items c) ks"
  shows "LRUCache_wf (LRUCache_removeExpired c ks now)"
proof -
  let ?m = "\<lambda>k. case lc_items c k of None \<Rightarrow> None
                 | Some item \<Rightarrow> if lruItem_isExpired item now then None else Some item"
  have d: "dom ?m = {k \<in> dom (lc_items c).
                      \<not> (\<exists>item. lc_items c k = Some item \<and> lruItem_isExpired item now)}"
    by (auto split: option.splits if_splits)
  have "finite (dom ?m)"
    using w unfolding d by (simp add: LRUCache_wf_def)
  moreover have "set (filter (\<lambda>k. \<not> (\<exists>item. lc_items c k = Some item \<and> lruItem_isExpired item now))
                     (lc_chain c)) = dom ?m"
    using w unfolding d by (auto simp: LRUCache_wf_def)
  moreover have "[] \<notin> dom ?m"
    using w unfolding d by (simp add: LRUCache_wf_def)
  moreover have "\<forall>k item. ?m k = Some item \<longrightarrow> li_key item = k"
    using w by (auto simp: LRUCache_wf_def split: option.splits if_splits)
  ultimately show ?thesis
    using w unfolding LRUCache_wf_def LRUCache_removeExpired_sweep [OF w r]
    by simp
qed
subsection \<open>LFUCache\<close>


lemma LFUCache_wf_subset:
  assumes w: "LFUCache_wf c"
    and s: "\<forall>k x. fc_items c' k = Some x \<longrightarrow> fc_items c k = Some x"
    and m: "fc_maxSize c' = fc_maxSize c"
  shows "LFUCache_wf c'"
proof -
  have "dom (fc_items c') \<subseteq> dom (fc_items c)"
    using s by auto
  then have "finite (dom (fc_items c'))" and "[] \<notin> dom (fc_items c')"
    using w by (auto simp: LFUCache_wf_def intro: finite_subset)
  moreover have "\<forall>k item. fc_items c' k = Some item \<longrightarrow> 1 \<le> fi_frequency item"
    using w s unfolding LFUCache_wf_def by blast
  ultimately show ?thesis
    using w m by (simp add: LFUCache_wf_def)
qed

lemma LFUCache_wf_update:
  assumes w: "LFUCache_wf c" and k: "key \<noteq> []" and f: "1 \<le> fi_frequency item"
  shows "LFUCache_wf (c\<lparr>fc_items := (fc_items c)(key \<mapsto> item)\<rparr>)"
  using assms by (auto simp: LFUCache_wf_def)

lemma LFUCache_evictLFU_maxSize: "fc_maxSize (LFUCache_evictLFU c ks) = fc_maxSize c"
  by (simp add: LFUCache_evictLFU_def Let_def)

lemma LFUCache_wf_evictLFU: "LFUCache_wf c \<Longrightarrow> LFUCache_wf (LFUCache_evictLFU c ks)"
  by (rule LFUCache_wf_subset [where c = c])
     (auto simp: LFUCache_evictLFU_maxSize dest: LFUCache_evictLFU_items)

lemma LFUCache_wf_Get:
  assumes w: "LFUCache_wf c"
  shows "LFUCache_wf (fst (snd (LFUCache_Get c h key now)))"
proof (cases "fc_items c key")
  case None
  then show ?thesis
    using w by (simp add: LFUCache_Get_absent LFUCache_wf_def)
next
  case (Some item)
  then have k: "key \<noteq> []" and f: "1 \<le> fi_frequency item"
    using w by (auto simp: LFUCache_wf_def)
  show ?thesis
  proof (cases "lfuItem_isExpired item now")
    case True
    have "LFUCache_wf (c\<lparr>fc_items := (fc_items c)(key := None)\<rparr>)"
      by (rule LFUCache_wf_subset [OF w]) (auto split: if_splits)
    then show ?thesis
      using True by (simp add: LFUCache_Get_expired [OF k Some] LFUCache_wf_def)
  next
    case False
    have "1 \<le> fi_frequency (lfuItem_touch item now)"
      using f by (simp add: lfuItem_touch_def)
    from LFUCache_wf_update [OF w k this]
    show ?thesis
      using False by (simp add: LFUCache_Get_live [OF k Some] LFUCache_wf_def)
  qed
qed

lemma LFUCache_wf_SetWithTTL:
  assumes w: "LFUCache_wf c"
  shows "LFUCache_wf (fst (snd (LFUCache_SetWithTTL c h ks key v ttl now)))"
proof (cases "key = [] \<or> fc_closed c")
  case True
  then show ?thesis
    using w by (auto simp: LFUCache_SetWithTTL_def)
next
  case False
  then have k: "key \<noteq> []" and o: "\<not> fc_closed c"
    by simp_all
  show ?thesis
  proof (cases "fc_items c key")
    case None
    let ?c1 = "if len (fc_items c) \<ge> fc_maxSize c then LFUCache_evictLFU c ks else c"
    have w1: "LFUCache_wf ?c1"
      using w LFUCache_wf_evictLFU [OF w] by simp
    show ?thesis
      using LFUCache_wf_update [OF w1 k]
      by (simp only: LFUCache_SetWithTTL_new [OF k o None refl] fst_conv snd_conv) simp
  next
    case (Some existingItem)
    then have "1 \<le> fi_frequency existingItem"
      using w by (auto simp: LFUCache_wf_def)
    then show ?thesis
      using LFUCache_wf_update [OF w k]
      by (simp only: LFUCache_SetWithTTL_overwrite [OF k o Some] fst_conv snd_conv) simp
  qed
qed

lemma LFUCache_wf_Delete: "LFUCache_wf c \<Longrightarrow> LFUCache_wf (snd (LFUCache_Delete c key))"
  by (rule LFUCache_wf_subset [where c = c])
     (auto simp: LFUCache_Delete_def split: option.splits if_splits)

lemma LFUCache_wf_Clear: "LFUCache_wf c \<Longrightarrow> LFUCache_wf (LFUCache_Clear c)"
  by (simp add: LFUCache_wf_def LFUCache_Clear_def)

lemma LFUCache_wf_Close: "LFUCache_wf c \<Longrightarrow> LFUCache_wf (LFUCache_Close c)"
  by (simp add: LFUCache_Close_def LFUCache_wf_def)

lemma LFUCache_removeExpired_maxSize:
  "fc_maxSize (LFUCache_removeExpired c ks now) = fc_maxSize c"
  by (simp add: LFUCache_removeExpired_def Let_def LFUCache_delete_fold_fields)

lemma LFUCache_wf_removeExpired:
  "LFUCache_wf c \<Longrightarrow> LFUCache_wf (LFUCache_removeExpired c ks now)"
  by (rule LFUCache_wf_subset [where c = c])
     (auto simp: LFUCache_removeExpired_items LFUCache_removeExpired_maxSize split: if_splits)

subsection \<open>MemoryCache\<close>

lemma MemoryCache_wf_New: "MemoryCache_wf (NewMemoryCache config)"
  by (simp add: MemoryCache_wf_def NewMemoryCache_def)

lemma MemoryCache_wf_subset:
  assumes w: "MemoryCache_wf c"
    and s: "\<forall>k x. mc_data c' k = Some x \<longrightarrow> mc_data c k = Some x"
  shows "MemoryCache_wf c'"
proof -
  have "dom (mc_data c') \<subseteq> dom (mc_data c)"
    using s by auto
  then have "finite (dom (mc_data c'))"
    using w by (auto simp: MemoryCache_wf_def intro: finite_subset)
  moreover have "\<forall>k item. mc_data c' k = Some item \<longrightarrow> 1 \<le> AccessCount item"
    using w s unfolding MemoryCache_wf_def by blast
  ultimately show ?thesis
    by (simp add: MemoryCache_wf_def)
qed

lemma MemoryCache_wf_update:
  assumes w: "MemoryCache_wf c" and f: "1 \<le> AccessCount item"
  shows "MemoryCache_wf (c\<lparr>mc_data := (mc_data c)(key \<mapsto> item)\<rparr>)"
  using assms by (auto simp: MemoryCache_wf_def)

lemma MemoryCache_wf_counters:
  "MemoryCache_wf (c\<lparr>mc_hits := x\<rparr>) = MemoryCache_wf c"
  "MemoryCache_wf (c\<lparr>mc_misses := x\<rparr>) = MemoryCache_wf c"
  "MemoryCache_wf (c\<lparr>mc_evictions := x\<rparr>) = MemoryCache_wf c"
  "MemoryCache_wf (c\<lparr>mc_stopCh := b\<rparr>) = MemoryCache_wf c"
  by (simp_all add: MemoryCache_wf_def)

lemma MemoryCache_evict_data:
  "mc_data (MemoryCache_evict c ks) k = Some item \<Longrightarrow> mc_data c k = Some item"
  by (auto simp: MemoryCache_evict_def MemoryCache_evictLRU_def MemoryCache_evictLFU_def
      MemoryCache_evictFIFO_def Let_def split: if_splits)


lemma MemoryCache_wf_evict: "MemoryCache_wf c \<Longrightarrow> MemoryCache_wf (MemoryCache_evict c ks)"
  by (rule MemoryCache_wf_subset [where c = c]) (auto dest: MemoryCache_evict_data)

lemma MemoryCache_wf_Get:
  assumes w: "MemoryCache_wf c"
  shows "MemoryCache_wf (fst (snd (MemoryCache_Get c h key now)))"
proof (cases "mc_data c key")
  case None
  then show ?thesis
    using w by (simp add: MemoryCache_Get_absent MemoryCache_wf_counters)
next
  case (Some item)
  then have f: "1 \<le> AccessCount item"
    using w by (auto simp: MemoryCache_wf_def)
  show ?thesis
  proof (cases "Item_IsExpired item now")
    case True
    have "MemoryCache_wf (c\<lparr>mc_data := (mc_data c)(key := None)\<rparr>)"
      by (rule MemoryCache_wf_subset [OF w]) (auto split: if_splits)
    then show ?thesis
      using True by (simp add: MemoryCache_Get_expired [OF Some] MemoryCache_wf_def)
  next
    case False
    have "1 \<le> AccessCount (Item_Touch item now)"
      using f by (simp add: Item_Touch_def)
    from MemoryCache_wf_update [OF w this]
    show ?thesis
      using False by (simp add: MemoryCache_Get_live [OF Some] MemoryCache_wf_def)
  qed
qed

lemma MemoryCache_wf_SetWithTTL:
  assumes w: "MemoryCache_wf c"
  shows "MemoryCache_wf (fst (snd (MemoryCache_SetWithTTL c h ks key v ttl now)))"
proof -
  let ?c1 = "if MaxSize (mc_config c) > 0 \<and> len (mc_data c) \<ge> MaxSize (mc_config c)
                \<and> mc_data c key = None
             then MemoryCache_evict c ks else c"
  have w1: "MemoryCache_wf ?c1"
    using w MemoryCache_wf_evict [OF w] by simp
  show ?thesis
    using MemoryCache_wf_update [OF w1]
    by (simp only: MemoryCache_SetWithTTL_eq [OF refl] fst_conv snd_conv) simp
qed

lemma MemoryCache_wf_Delete: "MemoryCache_wf c \<Longrightarrow> MemoryCache_wf (snd (MemoryCache_Delete c key))"
  by (rule MemoryCache_wf_subset [where c = c])
     (auto simp: MemoryCache_Delete_def split: option.splits if_splits)

lemma MemoryCache_wf_Clear: "MemoryCache_wf c \<Longrightarrow> MemoryCache_wf (MemoryCache_Clear c)"
  by (simp add: MemoryCache_wf_def MemoryCache_Clear_def)

lemma MemoryCache_wf_Close: "MemoryCache_wf c \<Longrightarrow> MemoryCache_wf (MemoryCache_Close c)"
  by (simp add: MemoryCache_Close_def MemoryCache_wf_counters)

lemma MemoryCache_wf_removeExpired:
  assumes w: "MemoryCache_wf c" and r: "range_order (mc_data c) ks"
  shows "MemoryCache_wf (MemoryCache_removeExpired c ks now)"
  by (rule MemoryCache_wf_subset [OF w])
     (auto simp: MemoryCache_removeExpired_sweep(1) [OF r] split: option.splits if_splits)

section \<open>The capacity bound\<close>

subsection \<open>LRUCache\<close>



lemma LRUCache_SetWithTTL_resident:
  assumes k: "key \<noteq> []" and o: "\<not> lc_closed c" and s: "lc_items c key = Some existingItem"
  shows "dom (lc_items (fst (snd (LRUCache_SetWithTTL c h key v ttl now)))) = dom (lc_items c)
     \<and> len (lc_items (fst (snd (LRUCache_SetWithTTL c h key v ttl now)))) = len (lc_items c)
     \<and> lc_evictions (fst (snd (LRUCache_SetWithTTL c h key v ttl now))) = lc_evictions c"
  using s by (simp add: LRUCache_SetWithTTL_overwrite [OF k o s refl] len_def insert_absorb domI)

subsection \<open>LFUCache\<close>



lemma LFUCache_SetWithTTL_resident:
  assumes k: "key \<noteq> []" and o: "\<not> fc_closed c" and s: "fc_items c key = Some existingItem"
  shows "dom (fc_items (fst (snd (LFUCache_SetWithTTL c h ks key v ttl now)))) = dom (fc_items c)
     \<and> len (fc_items (fst (snd (LFUCache_SetWithTTL c h ks key v ttl now)))) = len (fc_items c)
     \<and> fc_evictions (fst (snd (LFUCache_SetWithTTL c h ks key v ttl now))) = fc_evictions c"
  using s by (simp add: LFUCache_SetWithTTL_overwrite [OF k o s] len_def insert_absorb domI)

subsection \<open>MemoryCache, when the empty key is not stored\<close>

lemma MemoryCache_SetWithTTL_full:
  assumes w: "MemoryCache_wf c" and r: "range_order (mc_data c) ks"
    and nk: "[] \<notin> dom (mc_data c)" and n: "mc_data c key = None"
    and pos: "0 < MaxSize (mc_config c)" and full: "len (mc_data c) \<ge> MaxSize (mc_config c)"
  shows "\<exists>victim. mc_data c victim \<noteq> None
     \<and> dom (mc_data (fst (snd (MemoryCache_SetWithTTL c h ks key v ttl now))))
         = insert key (dom (mc_data c) - {victim})
     \<and> len (mc_data (fst (snd (MemoryCache_SetWithTTL c h ks key v ttl now)))) = len (mc_data c)
     \<and> mc_evictions (fst (snd (MemoryCache_SetWithTTL c h ks key v ttl now))) = mc_evictions c + 1"
proof -
  have fin: "finite (dom (mc_data c))"
    using w by (simp add: MemoryCache_wf_def)
  have "0 < len (mc_data c)"
    using pos full by simp
  then obtain k0 where k0: "mc_data c k0 \<noteq> None"
    using len_pos_resident by blast
  obtain victim vitem where vi: "mc_data c victim = Some vitem"
    and e: "MemoryCache_evict c ks
         = c\<lparr>mc_data := (mc_data c)(victim := None), mc_evictions := mc_evictions c + 1\<rparr>"
    using MemoryCache_evict_victim [OF w r k0 nk] by blast
  have vk: "victim \<noteq> key"
    using vi n by auto
  let ?c' = "fst (snd (MemoryCache_SetWithTTL c h ks key v ttl now))"
  have it: "mc_data ?c' = ((mc_data c)(victim := None))(key \<mapsto>
           \<lparr>Value = brk h,
            ExpiresAt = (if ttl > 0 then now + ttl
                         else if DefaultTTL (mc_config c) > 0 then now + DefaultTTL (mc_config c)
                         else now + 100 * 365 * 24 * Hour),
            LastAccess = now, AccessCount = 1, CreatedAt = now\<rparr>)"
    and ev: "mc_evictions ?c' = mc_evictions c + 1"
    using full pos n by (simp_all add: MemoryCache_SetWithTTL_eq [OF refl] e)
  have d: "dom (mc_data ?c') = insert key (dom (mc_data c) - {victim})"
    unfolding it by auto
  have "len ((mc_data c)(victim := None)) = len (mc_data c) - 1"
    by (rule len_delete [OF fin vi])
  moreover have "len (mc_data ?c') = len ((mc_data c)(victim := None)) + 1"
    unfolding it using fin n vk by (intro len_update_new) simp_all
  ultimately have "len (mc_data ?c') = len (mc_data c)"
    by simp
  then show ?thesis
    using vi d ev by auto
qed

lemma MemoryCache_SetWithTTL_room:
  assumes w: "MemoryCache_wf c" and n: "mc_data c key = None"
    and room: "MaxSize (mc_config c) \<le> 0 \<or> len (mc_data c) < MaxSize (mc_config c)"
  shows "dom (mc_data (fst (snd (MemoryCache_SetWithTTL c h ks key v ttl now))))
         = insert key (dom (mc_data c))
     \<and> len (mc_data (fst (snd (MemoryCache_SetWithTTL c h ks key v ttl now)))) = len (mc_data c) + 1
     \<and> mc_evictions (fst (snd (MemoryCache_SetWithTTL c h ks key v ttl now))) = mc_evictions c"
proof -
  have fin: "finite (dom (mc_data c))"
    using w by (simp add: MemoryCache_wf_def)
  show ?thesis
    using room len_update_new [OF fin n]
    by (auto simp: MemoryCache_SetWithTTL_eq [OF refl])
qed

lemma MemoryCache_SetWithTTL_resident:
  assumes s: "mc_data c key = Some existingItem"
  shows "dom (mc_data (fst (snd (MemoryCache_SetWithTTL c h ks key v ttl now)))) = dom (mc_data c)
     \<and> len (mc_data (fst (snd (MemoryCache_SetWithTTL c h ks key v ttl now)))) = len (mc_data c)
     \<and> mc_evictions (fst (snd (MemoryCache_SetWithTTL c h ks key v ttl now))) = mc_evictions c"
  using s by (simp add: MemoryCache_SetWithTTL_eq [OF refl] len_def insert_absorb domI)

text \<open>
  C3 at a concrete input, for \<open>MemoryCache\<close> with capacity \<open>1\<close>: \<open>Set\<close> of the empty
  key, then \<open>Set\<close> of the key \<open>a\<close>.  The loop of \<open>evictLRU\<close> picks the empty key as
  the oldest one, and the test \<open>oldestKey != ""\<close> then skips the deletion: after the
  second call two keys are resident and no eviction has been counted.
\<close>

theorem MemoryCache_capacity_exceeded:
  "(case MemoryCache_Set
           (NewMemoryCache \<lparr>MaxSize = 1, DefaultTTL = 0, CleanupInterval = 0, EvictionPolicy = LRU\<rparr>)
           heap0 [] [] nil 1 of (e1, c1, h1) \<Rightarrow>
      e1 = None \<and> len (mc_data c1) = 1 \<and>
      (case MemoryCache_Set c1 h1 [''''] ''a'' nil 2 of (e2, c2, h2) \<Rightarrow>
         e2 = None \<and> MaxSize (mc_config c2) = 1 \<and> len (mc_data c2) = 2
         \<and> mc_data c2 [] \<noteq> None \<and> mc_data c2 ''a'' \<noteq> None \<and> mc_evictions c2 = 0))"
  by (simp add: MemoryCache_Set_def MemoryCache_SetWithTTL_def MemoryCache_evict_def
      MemoryCache_evictLRU_def MemoryCache_evictLRU_step_def NewMemoryCache_def
      make_copy_def heap0_def Let_def len_def Add_def LRU_def)

section \<open>Capacity zero or negative\<close>


lemma LFUCache_SetWithTTL_config:
  "fc_maxSize (fst (snd (LFUCache_SetWithTTL c h ks key v ttl now))) = fc_maxSize c"
  "fc_closed (fst (snd (LFUCache_SetWithTTL c h ks key v ttl now))) = fc_closed c"
  "fc_defaultTTL (fst (snd (LFUCache_SetWithTTL c h ks key v ttl now))) = fc_defaultTTL c"
  by (auto simp: LFUCache_SetWithTTL_def Let_def split_def LFUCache_evictLFU_def
      split: option.splits)





section \<open>The LRU order\<close>




end
